theory Spec2Isabelle
  imports Main "HOL-Library.AList"
begin

section \<open>The in-memory blob descriptor cache\<close>

text \<open>
  The package \<^verbatim>\<open>memory\<close> keeps blob descriptors in one shared cache. The provider
  answers the global scope (keys whose \<open>repo\<close> is empty) and hands out views scoped to
  one repository; a view reads and writes the keys of its repository and forwards every
  write to the provider.

  The state of the provider is passed explicitly: an operation that changes the cache
  takes the provider and returns it updated, next to the Go \<^verbatim>\<open>error\<close> it returns
  (\<open>None\<close> for \<^verbatim>\<open>nil\<close>). The provider is shared by every view through the
  \<^verbatim>\<open>parent\<close> pointer, so a view's operation takes the provider as its state too.
\<close>

subsection \<open>Data\<close>

text \<open>
  \<^verbatim>\<open>digest.Digest\<close> is a Go string. The cache key is the struct of the source: a
  digest and a repository name, the global scope having the empty name.
\<close>

type_synonym Digest = string

text \<open>
  Modelled from the spec: the type \<^verbatim>\<open>distribution.Descriptor\<close>, declared outside the
  package. A descriptor is a value of three fields, the digest, the size (a 64-bit signed
  integer, never computed with here) and the media type.
\<close>

record Descriptor =
  MediaType :: string
  Size :: int
  Digest :: Digest

record descriptorCacheKey =
  digest :: Digest
  repo :: string

text \<open>
  Modelled from the spec: the errors. \<open>ErrBlobUnknown\<close> is the sentinel of the source for a
  miss (\<open>UnknownBlob\<close> in the spec); \<open>InvalidDigest\<close> is what \<^verbatim>\<open>Validate\<close> returns on
  a malformed digest, \<open>InvalidDescriptor\<close> what the descriptor check returns, and
  \<open>InvalidRepositoryName\<close> what the name parser returns. \<open>ErrARCSize\<close> is the error of
  the store's constructor.
\<close>

datatype error =
    ErrBlobUnknown
  | InvalidDigest
  | InvalidDescriptor
  | InvalidRepositoryName
  | ErrARCSize

subsection \<open>The cache store\<close>

text \<open>
  Modelled from the spec: the adaptive cache store, the ARC cache of the library
  \<^verbatim>\<open>golang-lru\<close>, which is not part of the package. The store has a fixed capacity,
  a count of entries, and holds its entries in the order in which their keys came in.
  \<^verbatim>\<open>Get\<close> looks a key up and never fails; \<^verbatim>\<open>Add\<close> replaces the value of a key
  the store holds, and otherwise inserts the key, after evicting exactly one entry when
  the store is at capacity; \<^verbatim>\<open>Remove\<close> deletes a key if present. The values are
  descriptors by type, so the type assertion \<open>Stat\<close> makes on what it reads always holds.

  Which entry is evicted is the choice of the adaptive policy. The policy is a parameter
  \<open>E\<close> of the model: given the store and the incoming key it names the victim (when it
  names a key the store does not hold, the oldest entry goes). The standing of the
  entries in the policy, which \<^verbatim>\<open>Get\<close> changes, is not part of the store; the
  properties below hold for every \<open>E\<close>, so for whatever the policy chooses at each
  \<^verbatim>\<open>Add\<close>, or they say how much room they need.
\<close>

record ARCCache =
  capacity :: int
  entries :: "(descriptorCacheKey \<times> Descriptor) list"

type_synonym policy = "ARCCache \<Rightarrow> descriptorCacheKey \<Rightarrow> descriptorCacheKey"

definition DefaultSize :: int where
  "DefaultSize = 10000"

text \<open>\<^verbatim>\<open>math.MaxInt\<close>, for the 64-bit \<^verbatim>\<open>int\<close>.\<close>

definition MaxInt :: int where
  "MaxInt = 2 ^ 63 - 1"

definition UnlimitedSize :: int where
  "UnlimitedSize = MaxInt"

text \<open>
  \<^verbatim>\<open>NewARC\<close> fails on a capacity that is not positive, and only then (the comment
  at its call says so).
\<close>

definition NewARC :: "int \<Rightarrow> error + ARCCache" where
  "NewARC n = (if n \<le> 0 then Inl ErrARCSize
               else Inr \<lparr>capacity = n, entries = []\<rparr>)"

text \<open>The contents of the store, as a map from keys to descriptors.\<close>

definition items :: "ARCCache \<Rightarrow> descriptorCacheKey \<rightharpoonup> Descriptor" where
  "items c = map_of (entries c)"

text \<open>The store can take \<open>n\<close> more entries without reaching beyond its capacity.\<close>

definition has_room :: "nat \<Rightarrow> ARCCache \<Rightarrow> bool" where
  "has_room n c = (int (length (entries c)) + int n \<le> capacity c)"

definition victim :: "policy \<Rightarrow> ARCCache \<Rightarrow> descriptorCacheKey \<Rightarrow> descriptorCacheKey option" where
  "victim E c k =
     (case entries c of
        [] \<Rightarrow> None
      | (k0, v0) # rest \<Rightarrow> Some (case items c (E c k) of None \<Rightarrow> k0 | Some v \<Rightarrow> E c k))"

definition lru_Get :: "ARCCache \<Rightarrow> descriptorCacheKey \<Rightarrow> Descriptor option" where
  "lru_Get c k = items c k"

definition lru_Add ::
  "policy \<Rightarrow> ARCCache \<Rightarrow> descriptorCacheKey \<Rightarrow> Descriptor \<Rightarrow> ARCCache" where
  "lru_Add E c k v =
     (case items c k of
        Some old \<Rightarrow> c\<lparr>entries := AList.update k v (entries c)\<rparr>
      | None \<Rightarrow>
          if has_room 1 c then c\<lparr>entries := entries c @ [(k, v)]\<rparr>
          else (case victim E c k of
                  None \<Rightarrow> c\<lparr>entries := [(k, v)]\<rparr>
                | Some w \<Rightarrow> c\<lparr>entries := AList.delete w (entries c) @ [(k, v)]\<rparr>))"

definition lru_Remove :: "ARCCache \<Rightarrow> descriptorCacheKey \<Rightarrow> ARCCache" where
  "lru_Remove c k = c\<lparr>entries := AList.delete k (entries c)\<rparr>"

subsection \<open>Validation\<close>

text \<open>
  The digest library and the repository name parser are not part of the package. Their
  functions are parameters of the model: \<open>V\<close> tells whether \<^verbatim>\<open>Validate\<close> accepts a
  digest, \<open>A\<close> is \<^verbatim>\<open>Algorithm\<close>, and \<open>P\<close> is \<^verbatim>\<open>ParseNormalizedNamed\<close>,
  returning the normalized name or nothing when it fails. (\<^verbatim>\<open>Algorithm\<close> panics on a
  string without the separator; a call that reaches the panic ends there, before any
  nested call, and the model gives it the value of \<open>A\<close>.)
\<close>

definition dgst_Validate :: "(Digest \<Rightarrow> bool) \<Rightarrow> Digest \<Rightarrow> error option" where
  "dgst_Validate V dgst = (if V dgst then None else Some InvalidDigest)"

text \<open>
  Modelled from the spec: \<^verbatim>\<open>cache.ValidateDescriptor\<close>, which lives in the package
  \<^verbatim>\<open>registry/storage/cache\<close>. A descriptor is well formed when its digest is present
  and valid, its size is not negative and its media type is not empty; a bad digest is
  reported as \<open>InvalidDigest\<close>, the other two as \<open>InvalidDescriptor\<close>.
\<close>

definition ValidateDescriptor :: "(Digest \<Rightarrow> bool) \<Rightarrow> Descriptor \<Rightarrow> error option" where
  "ValidateDescriptor V desc =
     (case dgst_Validate V (Digest desc) of
        Some err \<Rightarrow> Some err
      | None \<Rightarrow>
          if Size desc < 0 then Some InvalidDescriptor
          else if MediaType desc = [] then Some InvalidDescriptor
          else None)"

subsection \<open>The provider\<close>

record inMemoryBlobDescriptorCacheProvider =
  lru :: ARCCache

text \<open>
  A capacity that is not positive is replaced by \<^verbatim>\<open>math.MaxInt\<close> before the store
  is created. A failure of \<^verbatim>\<open>NewARC\<close> is a panic, the \<open>Inl\<close> of the result.
\<close>

definition NewInMemoryBlobDescriptorCacheProvider ::
  "int \<Rightarrow> error + inMemoryBlobDescriptorCacheProvider" where
  "NewInMemoryBlobDescriptorCacheProvider n =
     (let size' = (if n \<le> 0 then MaxInt else n) in
      case NewARC size' of
        Inl err \<Rightarrow> Inl err
      | Inr lruCache \<Rightarrow> Inr \<lparr>lru = lruCache\<rparr>)"

definition Stat ::
  "(Digest \<Rightarrow> bool) \<Rightarrow> inMemoryBlobDescriptorCacheProvider \<Rightarrow> Digest \<Rightarrow> error + Descriptor" where
  "Stat V imbdcp dgst =
     (case dgst_Validate V dgst of
        Some err \<Rightarrow> Inl err
      | None \<Rightarrow>
          (case lru_Get (lru imbdcp) \<lparr>digest = dgst, repo = []\<rparr> of
             Some desc \<Rightarrow> Inr desc
           | None \<Rightarrow> Inl ErrBlobUnknown))"

definition Clear ::
  "inMemoryBlobDescriptorCacheProvider \<Rightarrow> Digest
     \<Rightarrow> error option \<times> inMemoryBlobDescriptorCacheProvider" where
  "Clear imbdcp dgst =
     (None, imbdcp\<lparr>lru := lru_Remove (lru imbdcp) \<lparr>digest = dgst, repo = []\<rparr>\<rparr>)"

function SetDescriptor ::
  "(Digest \<Rightarrow> bool) \<Rightarrow> (Digest \<Rightarrow> string) \<Rightarrow> policy \<Rightarrow> inMemoryBlobDescriptorCacheProvider
     \<Rightarrow> Digest \<Rightarrow> Descriptor \<Rightarrow> error option \<times> inMemoryBlobDescriptorCacheProvider" where
  "SetDescriptor V A E imbdcp dgst desc =
     (case Stat V imbdcp dgst of
        Inr known \<Rightarrow> (None, imbdcp)
      | Inl err \<Rightarrow>
          if err = ErrBlobUnknown then
            (case (if A dgst \<noteq> A (Digest desc) \<and> dgst \<noteq> Digest desc
                   then SetDescriptor V A E imbdcp (Digest desc) desc
                   else (None, imbdcp)) of
               (Some err1, p1) \<Rightarrow> (Some err1, p1)
             | (None, p1) \<Rightarrow>
                 (case dgst_Validate V dgst of
                    Some err2 \<Rightarrow> (Some err2, p1)
                  | None \<Rightarrow>
                      (case ValidateDescriptor V desc of
                         Some err3 \<Rightarrow> (Some err3, p1)
                       | None \<Rightarrow>
                           (None, p1\<lparr>lru := lru_Add E (lru p1) \<lparr>digest = dgst, repo = []\<rparr> desc\<rparr>))))
          else (Some err, imbdcp))"
  by pat_completeness auto
termination
  by (relation "measure (\<lambda>(V, A, E, imbdcp, dgst, desc). if A dgst \<noteq> A (Digest desc) then 1 else 0)")
     auto

declare SetDescriptor.simps [simp del]

text \<open>
  The same method with a bound on the number of its activations: \<open>None\<close> when the
  bound is used up before the call returns.
\<close>

fun SetDescriptor_fuel ::
  "nat \<Rightarrow> (Digest \<Rightarrow> bool) \<Rightarrow> (Digest \<Rightarrow> string) \<Rightarrow> policy
     \<Rightarrow> inMemoryBlobDescriptorCacheProvider
     \<Rightarrow> Digest \<Rightarrow> Descriptor
     \<Rightarrow> (error option \<times> inMemoryBlobDescriptorCacheProvider) option" where
  "SetDescriptor_fuel 0 V A E imbdcp dgst desc = None"
| "SetDescriptor_fuel (Suc n) V A E imbdcp dgst desc =
     (case Stat V imbdcp dgst of
        Inr known \<Rightarrow> Some (None, imbdcp)
      | Inl err \<Rightarrow>
          if err = ErrBlobUnknown then
            (case (if A dgst \<noteq> A (Digest desc) \<and> dgst \<noteq> Digest desc
                   then SetDescriptor_fuel n V A E imbdcp (Digest desc) desc
                   else Some (None, imbdcp)) of
               None \<Rightarrow> None
             | Some (Some err1, p1) \<Rightarrow> Some (Some err1, p1)
             | Some (None, p1) \<Rightarrow>
                 (case dgst_Validate V dgst of
                    Some err2 \<Rightarrow> Some (Some err2, p1)
                  | None \<Rightarrow>
                      (case ValidateDescriptor V desc of
                         Some err3 \<Rightarrow> Some (Some err3, p1)
                       | None \<Rightarrow>
                           Some (None, p1\<lparr>lru := lru_Add E (lru p1) \<lparr>digest = dgst, repo = []\<rparr> desc\<rparr>))))
          else Some (Some err, imbdcp))"

subsection \<open>The repository-scoped view\<close>

text \<open>
  The view holds the repository name it was asked for; its \<^verbatim>\<open>parent\<close> is the
  provider it came from, the state its operations take. (The field is \<^verbatim>\<open>repo\<close> in
  the source, as in the key.)
\<close>

record repositoryScopedInMemoryBlobDescriptorCache =
  scoped_repo :: string

definition RepositoryScoped ::
  "(string \<Rightarrow> string option) \<Rightarrow> inMemoryBlobDescriptorCacheProvider \<Rightarrow> string
     \<Rightarrow> error + repositoryScopedInMemoryBlobDescriptorCache" where
  "RepositoryScoped P imbdcp name =
     (case P name of
        None \<Rightarrow> Inl InvalidRepositoryName
      | Some named \<Rightarrow> Inr \<lparr>scoped_repo = name\<rparr>)"

definition scoped_Stat ::
  "(Digest \<Rightarrow> bool) \<Rightarrow> repositoryScopedInMemoryBlobDescriptorCache
     \<Rightarrow> inMemoryBlobDescriptorCacheProvider \<Rightarrow> Digest \<Rightarrow> error + Descriptor" where
  "scoped_Stat V rsimbdcp parent dgst =
     (case dgst_Validate V dgst of
        Some err \<Rightarrow> Inl err
      | None \<Rightarrow>
          (case lru_Get (lru parent) \<lparr>digest = dgst, repo = scoped_repo rsimbdcp\<rparr> of
             Some desc \<Rightarrow> Inr desc
           | None \<Rightarrow> Inl ErrBlobUnknown))"

definition scoped_Clear ::
  "repositoryScopedInMemoryBlobDescriptorCache \<Rightarrow> inMemoryBlobDescriptorCacheProvider
     \<Rightarrow> Digest \<Rightarrow> error option \<times> inMemoryBlobDescriptorCacheProvider" where
  "scoped_Clear rsimbdcp parent dgst =
     (None, parent\<lparr>lru := lru_Remove (lru parent)
                               \<lparr>digest = dgst, repo = scoped_repo rsimbdcp\<rparr>\<rparr>)"

definition scoped_SetDescriptor ::
  "(Digest \<Rightarrow> bool) \<Rightarrow> (Digest \<Rightarrow> string) \<Rightarrow> policy
     \<Rightarrow> repositoryScopedInMemoryBlobDescriptorCache
     \<Rightarrow> inMemoryBlobDescriptorCacheProvider \<Rightarrow> Digest \<Rightarrow> Descriptor
     \<Rightarrow> error option \<times> inMemoryBlobDescriptorCacheProvider" where
  "scoped_SetDescriptor V A E rsimbdcp parent dgst desc =
     (case dgst_Validate V dgst of
        Some err \<Rightarrow> (Some err, parent)
      | None \<Rightarrow>
          (case ValidateDescriptor V desc of
             Some err \<Rightarrow> (Some err, parent)
           | None \<Rightarrow>
               SetDescriptor V A E
                 (parent\<lparr>lru := lru_Add E (lru parent)
                                   \<lparr>digest = dgst, repo = scoped_repo rsimbdcp\<rparr> desc\<rparr>)
                 dgst desc))"

subsection \<open>Concrete collaborators and inputs\<close>

text \<open>
  To run the model on concrete inputs, the parameters are instantiated in the format the
  registry uses. A digest is \<^verbatim>\<open>algorithm:hex\<close>, its algorithm what stands before the
  colon; it is valid when the algorithm is one of \<^verbatim>\<open>sha256\<close>, \<^verbatim>\<open>sha384\<close> and
  \<^verbatim>\<open>sha512\<close> and the rest is lower-case hexadecimal of that algorithm's length. The
  name parser is a small stand-in for \<^verbatim>\<open>ParseNormalizedNamed\<close>, which it follows on
  the names used below: it refuses the empty name and a name with a character outside
  \<^verbatim>\<open>a-z 0-9 . _ - /\<close> (an upper-case letter, say), and otherwise puts the default
  host, and the default namespace for a single component, in front. The general
  properties do not depend on these instances: they hold for every \<open>V\<close>, \<open>A\<close> and \<open>P\<close>.
\<close>

definition std_Algorithm :: "Digest \<Rightarrow> string" where
  "std_Algorithm d = takeWhile (\<lambda>c. c \<noteq> CHR '':'') d"

definition std_Validate :: "Digest \<Rightarrow> bool" where
  "std_Validate d =
     (let alg = std_Algorithm d; enc = drop (Suc (length alg)) d in
      length alg < length d \<and> list_all (\<lambda>c. c \<in> set ''0123456789abcdef'') enc \<and>
      ((alg = ''sha256'' \<and> length enc = 64) \<or> (alg = ''sha384'' \<and> length enc = 96)
        \<or> (alg = ''sha512'' \<and> length enc = 128)))"

definition std_ParseNormalizedNamed :: "string \<Rightarrow> string option" where
  "std_ParseNormalizedNamed name =
     (if name = [] then None
      else if list_ex (\<lambda>c. c \<notin> set ''abcdefghijklmnopqrstuvwxyz0123456789._-/'') name then None
      else if CHR ''/'' \<in> set name then Some (''docker.io/'' @ name)
      else Some (''docker.io/library/'' @ name))"

definition sha256_of :: "char \<Rightarrow> Digest" where
  "sha256_of c = ''sha256:'' @ replicate 64 c"

definition sha512_of :: "char \<Rightarrow> Digest" where
  "sha512_of c = ''sha512:'' @ replicate 128 c"

definition blob :: "Digest \<Rightarrow> int \<Rightarrow> Descriptor" where
  "blob d n = \<lparr>MediaType = ''application/octet-stream'', Size = n, Digest = d\<rparr>"

text \<open>
  A policy to run the model with: the entry that came in first is the victim. On a store
  of capacity one, where the examples below make it evict, the only entry is the victim
  whatever the policy.
\<close>

definition oldest :: policy where
  "oldest c k = (case entries c of [] \<Rightarrow> k | (k0, v0) # rest \<Rightarrow> k0)"

text \<open>
  The empty providers the constructor returns for the default size and for the size one,
  two views, and providers that the operations reach from the empty ones: after the
  global \<open>SetDescriptor\<close> of a first descriptor, and after the same write through the
  first view.
\<close>

definition fresh :: inMemoryBlobDescriptorCacheProvider where
  "fresh = \<lparr>lru = \<lparr>capacity = DefaultSize, entries = []\<rparr>\<rparr>"

definition tiny :: inMemoryBlobDescriptorCacheProvider where
  "tiny = \<lparr>lru = \<lparr>capacity = 1, entries = []\<rparr>\<rparr>"

definition ubuntu :: repositoryScopedInMemoryBlobDescriptorCache where
  "ubuntu = \<lparr>scoped_repo = ''library/ubuntu''\<rparr>"

definition alpine :: repositoryScopedInMemoryBlobDescriptorCache where
  "alpine = \<lparr>scoped_repo = ''library/alpine''\<rparr>"

definition known_a :: inMemoryBlobDescriptorCacheProvider where
  "known_a = \<lparr>lru = \<lparr>capacity = DefaultSize, entries =
     [(\<lparr>digest = sha256_of CHR ''a'', repo = []\<rparr>, blob (sha256_of CHR ''a'') 1)]\<rparr>\<rparr>"

definition tiny_known_a :: inMemoryBlobDescriptorCacheProvider where
  "tiny_known_a = \<lparr>lru = \<lparr>capacity = 1, entries =
     [(\<lparr>digest = sha256_of CHR ''a'', repo = []\<rparr>, blob (sha256_of CHR ''a'') 1)]\<rparr>\<rparr>"

definition ubuntu_wrote :: inMemoryBlobDescriptorCacheProvider where
  "ubuntu_wrote = \<lparr>lru = \<lparr>capacity = DefaultSize, entries =
     [(\<lparr>digest = sha256_of CHR ''a'', repo = ''library/ubuntu''\<rparr>, blob (sha256_of CHR ''a'') 1),
      (\<lparr>digest = sha256_of CHR ''a'', repo = []\<rparr>, blob (sha256_of CHR ''a'') 1)]\<rparr>\<rparr>"

section \<open>Properties\<close>

subsection \<open>The store\<close>

lemma items_absent: "items c k = None \<Longrightarrow> k \<notin> fst ` set (entries c)"
  by (simp add: items_def map_of_eq_None_iff)

lemma lru_Add_capacity [simp]: "capacity (lru_Add E c k v) = capacity c"
  by (simp add: lru_Add_def split: option.splits)

text \<open>
  What an \<^verbatim>\<open>Add\<close> leaves: the new value under its key, nothing under at most one
  other key, the victim, and under every other key what was there.
\<close>

lemma lru_Add_evicts:
  "\<exists>w. items (lru_Add E c k v) = ((items c)(w := None))(k \<mapsto> v)"
proof (cases "items c k")
  case (Some old)
  then have "items (lru_Add E c k v) = ((items c)(k := None))(k \<mapsto> v)"
    by (simp add: lru_Add_def items_def AList.update_conv')
  then show ?thesis ..
next
  case None
  note absent = this
  show ?thesis
  proof (cases "has_room 1 c")
    case True
    with absent have "items (lru_Add E c k v) = ((items c)(k := None))(k \<mapsto> v)"
      by (auto simp: lru_Add_def items_def fun_eq_iff map_add_def split: option.splits)
    then show ?thesis ..
  next
    case False
    show ?thesis
    proof (cases "victim E c k")
      case None
      then have "entries c = []" by (simp add: victim_def split: list.splits prod.splits)
      with False absent None
      have "items (lru_Add E c k v) = ((items c)(k := None))(k \<mapsto> v)"
        by (auto simp: lru_Add_def items_def fun_eq_iff)
      then show ?thesis ..
    next
      case (Some w)
      with False absent
      have "items (lru_Add E c k v) = ((items c)(w := None))(k \<mapsto> v)"
        by (auto simp: lru_Add_def items_def fun_eq_iff map_add_def AList.delete_conv'
            split: option.splits)
      then show ?thesis ..
    qed
  qed
qed

lemma lru_Add_key [simp]: "items (lru_Add E c k v) k = Some v"
  using lru_Add_evicts [of E c k v] by auto

lemma lru_Add_other:
  "k' \<noteq> k \<Longrightarrow> items (lru_Add E c k v) k' = items c k' \<or> items (lru_Add E c k v) k' = None"
proof -
  assume ne: "k' \<noteq> k"
  obtain w where w: "items (lru_Add E c k v) = ((items c)(w := None))(k \<mapsto> v)"
    using lru_Add_evicts by blast
  show ?thesis
  proof (cases "k' = w")
    case True
    with ne w show ?thesis by simp
  next
    case False
    with ne w show ?thesis by simp
  qed
qed

lemma lru_Add_absent:
  "k' \<noteq> k \<Longrightarrow> items c k' = None \<Longrightarrow> items (lru_Add E c k v) k' = None"
  using lru_Add_other [of k' k E c v] by auto

lemma lru_Add_room:
  "has_room 1 c \<Longrightarrow> items (lru_Add E c k v) = (items c)(k \<mapsto> v)"
  by (auto simp: lru_Add_def items_def fun_eq_iff map_add_def AList.update_conv'
      split: option.splits)

lemma lru_Add_known:
  "items c k = Some old \<Longrightarrow> items (lru_Add E c k v) = (items c)(k \<mapsto> v)"
  by (simp add: lru_Add_def items_def AList.update_conv')

lemma lru_Add_new:
  "items c k = None \<Longrightarrow> has_room 1 c \<Longrightarrow> entries (lru_Add E c k v) = entries c @ [(k, v)]"
  by (simp add: lru_Add_def)

lemma length_update_known:
  "map_of al k = Some old \<Longrightarrow> length (AList.update k v al) = length al"
  by (induction al) (auto split: if_splits)

lemma lru_Add_has_room:
  "has_room (Suc n) c \<Longrightarrow> has_room n (lru_Add E c k v)"
proof -
  assume r: "has_room (Suc n) c"
  then have "has_room 1 c" by (simp add: has_room_def)
  with r show ?thesis
    by (auto simp: lru_Add_def has_room_def items_def length_update_known split: option.splits)
qed

lemma has_room_less: "has_room (Suc n) c \<Longrightarrow> has_room n c"
  by (simp add: has_room_def)

lemma lru_Remove_items [simp]: "items (lru_Remove c k) = (items c)(k := None)"
  by (simp add: lru_Remove_def items_def AList.delete_conv')

lemma lru_Remove_absent: "items c k = None \<Longrightarrow> lru_Remove c k = c"
  by (simp add: lru_Remove_def items_absent)

lemma length_delete_distinct:
  "distinct (map fst al) \<Longrightarrow> k \<in> fst ` set al \<Longrightarrow> Suc (length (AList.delete k al)) = length al"
  by (induction al) (auto simp: image_iff)

lemma victim_present:
  "victim E c k = Some w \<Longrightarrow> w \<in> fst ` set (entries c)"
proof (cases "entries c")
  case Nil
  then show "victim E c k = Some w \<Longrightarrow> w \<in> fst ` set (entries c)"
    by (simp add: victim_def)
next
  case (Cons e es)
  assume v: "victim E c k = Some w"
  show "w \<in> fst ` set (entries c)"
  proof (cases "items c (E c k)")
    case None
    with v Cons have "w = fst e" by (simp add: victim_def split: prod.splits)
    with Cons show ?thesis by simp
  next
    case (Some x)
    with v Cons have "w = E c k" by (simp add: victim_def split: prod.splits)
    moreover from Some have "(E c k, x) \<in> set (entries c)"
      by (simp add: items_def map_of_SomeD)
    then have "fst (E c k, x) \<in> fst ` set (entries c)" by (rule imageI)
    ultimately show ?thesis by simp
  qed
qed

lemma lru_Add_distinct:
  assumes "distinct (map fst (entries c))"
  shows "distinct (map fst (entries (lru_Add E c k v)))"
proof (cases "items c k")
  case (Some old)
  with assms show ?thesis by (simp add: lru_Add_def AList.distinct_update)
next
  case None
  then have k: "k \<notin> fst ` set (entries c)" by (rule items_absent)
  show ?thesis
  proof (cases "has_room 1 c")
    case True
    with None k assms show ?thesis by (simp add: lru_Add_def)
  next
    case False
    show ?thesis
    proof (cases "victim E c k")
      case no: None
      with None False show ?thesis by (simp add: lru_Add_def)
    next
      case (Some w)
      have "fst ` set (AList.delete w (entries c)) \<subseteq> fst ` set (entries c)"
        by (rule AList.dom_delete_subset)
      with k have "k \<notin> fst ` set (AList.delete w (entries c))" by blast
      moreover have "distinct (map fst (AList.delete w (entries c)))"
        using assms by (rule AList.distinct_delete)
      ultimately show ?thesis using None False Some by (simp add: lru_Add_def)
    qed
  qed
qed

text \<open>
  With one entry per key, an \<^verbatim>\<open>Add\<close> of a new key to a store at capacity evicts
  exactly one entry, and the store never holds more entries than its capacity.
\<close>

lemma lru_Add_evicts_one:
  assumes "distinct (map fst (entries c))" and "items c k = None"
    and "\<not> has_room 1 c" and "entries c \<noteq> []"
  shows "length (entries (lru_Add E c k v)) = length (entries c)"
proof -
  from assms(4) obtain w where w: "victim E c k = Some w"
    by (cases "entries c") (auto simp: victim_def split: prod.splits)
  then have "w \<in> fst ` set (entries c)" by (rule victim_present)
  with assms(1) have "Suc (length (AList.delete w (entries c))) = length (entries c)"
    by (rule length_delete_distinct)
  with assms(2,3) w show ?thesis by (simp add: lru_Add_def)
qed

lemma lru_Add_bounded:
  assumes "distinct (map fst (entries c))" and "int (length (entries c)) \<le> capacity c"
    and "0 < capacity c"
  shows "int (length (entries (lru_Add E c k v))) \<le> capacity c"
proof (cases "items c k")
  case (Some old)
  then have "length (AList.update k v (entries c)) = length (entries c)"
    by (simp add: items_def length_update_known)
  with Some assms(2) show ?thesis by (simp add: lru_Add_def)
next
  case None
  show ?thesis
  proof (cases "has_room 1 c")
    case True
    with None show ?thesis by (simp add: lru_Add_def has_room_def)
  next
    case False
    with assms(2,3) have "entries c \<noteq> []" by (auto simp: has_room_def)
    with assms(1) None False have "length (entries (lru_Add E c k v)) = length (entries c)"
      by (rule lru_Add_evicts_one)
    with assms(2) show ?thesis by simp
  qed
qed

subsection \<open>What the operations compute\<close>

lemma Stat_lookup:
  "Stat V p d = (if V d then (case items (lru p) \<lparr>digest = d, repo = []\<rparr> of
                               Some x \<Rightarrow> Inr x | None \<Rightarrow> Inl ErrBlobUnknown)
                 else Inl InvalidDigest)"
  by (simp add: Stat_def dgst_Validate_def lru_Get_def)

lemma scoped_Stat_lookup:
  "scoped_Stat V rs p d =
     (if V d then (case items (lru p) \<lparr>digest = d, repo = scoped_repo rs\<rparr> of
                     Some x \<Rightarrow> Inr x | None \<Rightarrow> Inl ErrBlobUnknown)
      else Inl InvalidDigest)"
  by (simp add: scoped_Stat_def dgst_Validate_def lru_Get_def)

lemma Stat_unknown_iff:
  "Stat V p d = Inl ErrBlobUnknown \<longleftrightarrow> V d \<and> items (lru p) \<lparr>digest = d, repo = []\<rparr> = None"
  by (simp add: Stat_lookup split: option.splits)

lemma Stat_known_iff:
  "Stat V p d = Inr x \<longleftrightarrow> V d \<and> items (lru p) \<lparr>digest = d, repo = []\<rparr> = Some x"
  by (simp add: Stat_lookup split: option.splits)

lemma ValidateDescriptor_digest:
  "ValidateDescriptor V desc = None \<Longrightarrow> V (Digest desc)"
  by (simp add: ValidateDescriptor_def dgst_Validate_def split: if_splits)

lemma ValidateDescriptor_invalid_digest:
  "\<not> V (Digest desc) \<Longrightarrow> ValidateDescriptor V desc = Some InvalidDigest"
  by (simp add: ValidateDescriptor_def dgst_Validate_def)

lemma SetDescriptor_known:
  "Stat V p d = Inr x \<Longrightarrow> SetDescriptor V A E p d desc = (None, p)"
  by (subst SetDescriptor.simps) simp

lemma SetDescriptor_invalid:
  "\<not> V d \<Longrightarrow> SetDescriptor V A E p d desc = (Some InvalidDigest, p)"
  by (subst SetDescriptor.simps) (simp add: Stat_lookup)

lemma SetDescriptor_plain:
  assumes "Stat V p d = Inl ErrBlobUnknown" and "A d = A (Digest desc) \<or> d = Digest desc"
  shows "SetDescriptor V A E p d desc =
           (case ValidateDescriptor V desc of
              Some e \<Rightarrow> (Some e, p)
            | None \<Rightarrow> (None, p\<lparr>lru := lru_Add E (lru p) \<lparr>digest = d, repo = []\<rparr> desc\<rparr>))"
proof -
  from assms(1) have "V d" by (simp add: Stat_unknown_iff)
  with assms show ?thesis
    by (subst SetDescriptor.simps) (auto simp: dgst_Validate_def)
qed

text \<open>The method without its recursion: what a call does, by cases.\<close>

lemma SetDescriptor_closed:
  "SetDescriptor V A E p d desc =
     (if \<not> V d then (Some InvalidDigest, p)
      else case items (lru p) \<lparr>digest = d, repo = []\<rparr> of
        Some x \<Rightarrow> (None, p)
      | None \<Rightarrow>
          (case ValidateDescriptor V desc of
             Some e \<Rightarrow> (Some e, p)
           | None \<Rightarrow>
               (None,
                (if A d \<noteq> A (Digest desc) \<and> items (lru p) \<lparr>digest = Digest desc, repo = []\<rparr> = None
                 then p\<lparr>lru := lru_Add E (lru_Add E (lru p) \<lparr>digest = Digest desc, repo = []\<rparr> desc)
                                   \<lparr>digest = d, repo = []\<rparr> desc\<rparr>
                 else p\<lparr>lru := lru_Add E (lru p) \<lparr>digest = d, repo = []\<rparr> desc\<rparr>))))"
proof (cases "V d")
  case False
  then show ?thesis by (simp add: SetDescriptor_invalid)
next
  case v: True
  show ?thesis
  proof (cases "items (lru p) \<lparr>digest = d, repo = []\<rparr>")
    case (Some x)
    with v have "Stat V p d = Inr x" by (simp add: Stat_known_iff)
    then have "SetDescriptor V A E p d desc = (None, p)" by (rule SetDescriptor_known)
    with v Some show ?thesis by simp
  next
    case None
    with v have miss: "Stat V p d = Inl ErrBlobUnknown" by (simp add: Stat_unknown_iff)
    show ?thesis
    proof (cases "A d = A (Digest desc)")
      case True
      with miss have "SetDescriptor V A E p d desc =
           (case ValidateDescriptor V desc of
              Some e \<Rightarrow> (Some e, p)
            | None \<Rightarrow> (None, p\<lparr>lru := lru_Add E (lru p) \<lparr>digest = d, repo = []\<rparr> desc\<rparr>))"
        by (simp add: SetDescriptor_plain)
      with v None True show ?thesis by (simp split: option.splits)
    next
      case differ: False
      then have ne: "d \<noteq> Digest desc" by auto
      let ?c = "Digest desc"
      have outer: "SetDescriptor V A E p d desc =
          (case SetDescriptor V A E p ?c desc of
             (Some err1, p1) \<Rightarrow> (Some err1, p1)
           | (None, p1) \<Rightarrow>
               (case ValidateDescriptor V desc of
                  Some err3 \<Rightarrow> (Some err3, p1)
                | None \<Rightarrow> (None, p1\<lparr>lru := lru_Add E (lru p1) \<lparr>digest = d, repo = []\<rparr> desc\<rparr>)))"
        by (subst SetDescriptor.simps) (simp add: miss differ ne v dgst_Validate_def split: prod.splits option.splits)
      show ?thesis
      proof (cases "V ?c")
        case False
        then have "SetDescriptor V A E p ?c desc = (Some InvalidDigest, p)"
          by (rule SetDescriptor_invalid)
        with outer False v None show ?thesis
          by (simp add: ValidateDescriptor_invalid_digest)
      next
        case vc: True
        show ?thesis
        proof (cases "items (lru p) \<lparr>digest = ?c, repo = []\<rparr>")
          case (Some y)
          with vc have "Stat V p ?c = Inr y" by (simp add: Stat_known_iff)
          then have "SetDescriptor V A E p ?c desc = (None, p)" by (rule SetDescriptor_known)
          with outer v None Some show ?thesis by (simp split: option.splits)
        next
          case cnone: None
          with vc have "Stat V p ?c = Inl ErrBlobUnknown" by (simp add: Stat_unknown_iff)
          then have "SetDescriptor V A E p ?c desc =
             (case ValidateDescriptor V desc of
                Some e \<Rightarrow> (Some e, p)
              | None \<Rightarrow> (None, p\<lparr>lru := lru_Add E (lru p) \<lparr>digest = ?c, repo = []\<rparr> desc\<rparr>))"
            by (simp add: SetDescriptor_plain)
          with outer v None cnone differ show ?thesis by (simp split: option.splits)
        qed
      qed
    qed
  qed
qed

lemma scoped_SetDescriptor_invalid:
  "\<not> V d \<Longrightarrow> scoped_SetDescriptor V A E rs p d desc = (Some InvalidDigest, p)"
  by (simp add: scoped_SetDescriptor_def dgst_Validate_def)

lemma Clear_absent:
  "items (lru p) \<lparr>digest = d, repo = []\<rparr> = None \<Longrightarrow> Clear p d = (None, p)"
  by (simp add: Clear_def lru_Remove_absent)

lemma scoped_Clear_absent:
  "items (lru p) \<lparr>digest = d, repo = scoped_repo rs\<rparr> = None \<Longrightarrow> scoped_Clear rs p d = (None, p)"
  by (simp add: scoped_Clear_def lru_Remove_absent)

lemma SetDescriptor_stat:
  assumes "V d" and "ValidateDescriptor V desc = None"
  shows "Stat V (snd (SetDescriptor V A E p d desc)) d =
           (case Stat V p d of Inr x \<Rightarrow> Inr x | Inl e \<Rightarrow> Inr desc)"
  using assms by (simp add: SetDescriptor_closed Stat_lookup split: option.splits)

lemma SetDescriptor_succeeds:
  "V d \<Longrightarrow> ValidateDescriptor V desc = None \<Longrightarrow> fst (SetDescriptor V A E p d desc) = None"
  by (simp add: SetDescriptor_closed split: option.splits)

text \<open>
  A call writes keys of the global scope only. Under a key of a repository it leaves what
  was there, or nothing if an Add evicted the entry; with room for two entries it evicts
  nothing.
\<close>

lemma SetDescriptor_frame:
  assumes "repo k \<noteq> []"
  shows "items (lru (snd (SetDescriptor V A E p d desc))) k = items (lru p) k \<or>
         items (lru (snd (SetDescriptor V A E p d desc))) k = None"
proof -
  have ne: "k \<noteq> \<lparr>digest = e, repo = []\<rparr>" for e using assms by auto
  have one: "items (lru_Add E c \<lparr>digest = e, repo = []\<rparr> v) k = items c k \<or>
             items (lru_Add E c \<lparr>digest = e, repo = []\<rparr> v) k = None" for c e v
    using ne by (rule lru_Add_other)
  have two: "items (lru_Add E (lru_Add E c \<lparr>digest = e, repo = []\<rparr> v) \<lparr>digest = e', repo = []\<rparr> v') k
               = items c k \<or>
             items (lru_Add E (lru_Add E c \<lparr>digest = e, repo = []\<rparr> v) \<lparr>digest = e', repo = []\<rparr> v') k
               = None" for c e v e' v'
    using one [of "lru_Add E c \<lparr>digest = e, repo = []\<rparr> v" e' v'] one [of c e v] by auto
  show ?thesis
    using one two by (simp add: SetDescriptor_closed split: option.splits)
qed

lemma SetDescriptor_frame_room:
  assumes "repo k \<noteq> []" and "has_room 2 (lru p)"
  shows "items (lru (snd (SetDescriptor V A E p d desc))) k = items (lru p) k"
proof -
  have ne: "k \<noteq> \<lparr>digest = e, repo = []\<rparr>" for e using assms(1) by auto
  from assms(2) have r1: "has_room 1 (lru p)" by (simp add: has_room_def)
  from assms(2) have r2: "has_room 1 (lru_Add E (lru p) kc v)" for kc v
    using lru_Add_has_room [of 1 "lru p" E kc v] by (simp add: numeral_2_eq_2)
  show ?thesis
    using ne r1 r2 by (simp add: SetDescriptor_closed lru_Add_room split: option.splits)
qed

lemma SetDescriptor_has_room:
  assumes "has_room (Suc (Suc n)) (lru p)"
  shows "has_room n (lru (snd (SetDescriptor V A E p d desc)))"
proof -
  from assms have r1: "has_room (Suc n) (lru p)" and r0: "has_room n (lru p)"
    by (simp_all add: has_room_def)
  have a1: "has_room n (lru_Add E (lru p) k v)" for k v
    using r1 by (rule lru_Add_has_room)
  have a2: "has_room n (lru_Add E (lru_Add E (lru p) k v) k' v')" for k v k' v'
    using lru_Add_has_room [OF lru_Add_has_room [OF assms]] .
  show ?thesis
    using r0 a1 a2 by (simp add: SetDescriptor_closed split: option.splits)
qed

lemma scoped_SetDescriptor_valid:
  "V d \<Longrightarrow> ValidateDescriptor V desc = None \<Longrightarrow>
   scoped_SetDescriptor V A E rs p d desc =
     SetDescriptor V A E
       (p\<lparr>lru := lru_Add E (lru p) \<lparr>digest = d, repo = scoped_repo rs\<rparr> desc\<rparr>) d desc"
  by (simp add: scoped_SetDescriptor_def dgst_Validate_def)

lemma scoped_SetDescriptor_success:
  assumes "scoped_SetDescriptor V A E rs p d desc = (None, p')"
  shows "V d \<and> ValidateDescriptor V desc = None"
  using assms
  by (simp add: scoped_SetDescriptor_def dgst_Validate_def split: if_splits option.splits)

lemma SetDescriptor_fuel_own:
  "SetDescriptor_fuel (Suc n) V A E p (Digest desc) desc
     = Some (SetDescriptor V A E p (Digest desc) desc)"
  by (simp add: SetDescriptor.simps [of V A E p "Digest desc" desc]
      split: sum.splits option.splits)

lemma MaxInt_positive: "0 < MaxInt"
  by (simp add: MaxInt_def)

lemma keys_valid_New:
  "NewInMemoryBlobDescriptorCacheProvider n = Inr p \<Longrightarrow> items (lru p) k = None"
  by (auto simp: NewInMemoryBlobDescriptorCacheProvider_def NewARC_def Let_def items_def
      split: if_splits)

lemma keys_valid_lru_Add:
  assumes "\<forall>k. items c k \<noteq> None \<longrightarrow> V (digest k)" and "V (digest k0)"
  shows "\<forall>k. items (lru_Add E c k0 v) k \<noteq> None \<longrightarrow> V (digest k)"
proof (intro allI impI)
  fix k assume "items (lru_Add E c k0 v) k \<noteq> None"
  then show "V (digest k)"
    using assms lru_Add_other [of k k0 E c v] by (cases "k = k0") auto
qed

lemma keys_valid_SetDescriptor:
  assumes "\<forall>k. items (lru p) k \<noteq> None \<longrightarrow> V (digest k)"
  shows "\<forall>k. items (lru (snd (SetDescriptor V A E p d desc))) k \<noteq> None \<longrightarrow> V (digest k)"
proof (cases "V d \<and> ValidateDescriptor V desc = None")
  case True
  then have vd: "V (digest \<lparr>digest = d, repo = []\<rparr>)"
    and vc: "V (digest \<lparr>digest = Digest desc, repo = []\<rparr>)"
    by (auto dest: ValidateDescriptor_digest)
  have a1: "\<forall>k. items (lru_Add E (lru p) \<lparr>digest = d, repo = []\<rparr> desc) k \<noteq> None
               \<longrightarrow> V (digest k)"
    using assms vd by (rule keys_valid_lru_Add)
  have "\<forall>k. items (lru_Add E (lru p) \<lparr>digest = Digest desc, repo = []\<rparr> desc) k \<noteq> None
               \<longrightarrow> V (digest k)"
    using assms vc by (rule keys_valid_lru_Add)
  then have a2: "\<forall>k. items (lru_Add E
                 (lru_Add E (lru p) \<lparr>digest = Digest desc, repo = []\<rparr> desc)
                 \<lparr>digest = d, repo = []\<rparr> desc) k \<noteq> None \<longrightarrow> V (digest k)"
    using vd by (rule keys_valid_lru_Add)
  show ?thesis
    using True assms a1 a2
    by (simp add: SetDescriptor_closed split: option.splits)
next
  case False
  then have "snd (SetDescriptor V A E p d desc) = p"
    by (auto simp: SetDescriptor_closed split: option.splits)
  with assms show ?thesis by simp
qed

lemma keys_valid_scoped_SetDescriptor:
  assumes "\<forall>k. items (lru p) k \<noteq> None \<longrightarrow> V (digest k)"
  shows "\<forall>k. items (lru (snd (scoped_SetDescriptor V A E rs p d desc))) k \<noteq> None \<longrightarrow> V (digest k)"
proof (cases "V d \<and> ValidateDescriptor V desc = None")
  case True
  let ?q = "p\<lparr>lru := lru_Add E (lru p) \<lparr>digest = d, repo = scoped_repo rs\<rparr> desc\<rparr>"
  from True have "V (digest \<lparr>digest = d, repo = scoped_repo rs\<rparr>)" by simp
  from keys_valid_lru_Add [OF assms this]
  have "\<forall>k. items (lru ?q) k \<noteq> None \<longrightarrow> V (digest k)" by simp
  then have "\<forall>k. items (lru (snd (SetDescriptor V A E ?q d desc))) k \<noteq> None \<longrightarrow> V (digest k)"
    by (rule keys_valid_SetDescriptor)
  with True show ?thesis by (simp add: scoped_SetDescriptor_valid)
next
  case False
  then have "snd (scoped_SetDescriptor V A E rs p d desc) = p"
    by (auto simp: scoped_SetDescriptor_def dgst_Validate_def split: option.splits)
  with assms show ?thesis by simp
qed

lemma keys_valid_Clear:
  assumes "\<forall>k. items (lru p) k \<noteq> None \<longrightarrow> V (digest k)"
  shows "\<forall>k. items (lru (snd (Clear p d))) k \<noteq> None \<longrightarrow> V (digest k)"
    and "\<forall>k. items (lru (snd (scoped_Clear rs p d))) k \<noteq> None \<longrightarrow> V (digest k)"
  using assms by (simp_all add: Clear_def scoped_Clear_def)

text \<open>
  A write through a view: what it leaves under the view's own key, and under the keys of
  other repositories.
\<close>

lemma scoped_write_state:
  assumes "scoped_SetDescriptor V A E rs p d desc = (None, p')"
  shows "p' = snd (SetDescriptor V A E
                 (p\<lparr>lru := lru_Add E (lru p) \<lparr>digest = d, repo = scoped_repo rs\<rparr> desc\<rparr>) d desc)"
proof -
  from assms have "V d" and "ValidateDescriptor V desc = None"
    using scoped_SetDescriptor_success by blast+
  with assms show ?thesis by (simp add: scoped_SetDescriptor_valid)
qed

lemma scoped_write_other:
  assumes "scoped_SetDescriptor V A E rs p d desc = (None, p')"
    and "repo k \<noteq> scoped_repo rs" and "repo k \<noteq> []"
  shows "items (lru p') k = items (lru p) k \<or> items (lru p') k = None"
proof -
  let ?ks = "\<lparr>digest = d, repo = scoped_repo rs\<rparr>"
  let ?q = "p\<lparr>lru := lru_Add E (lru p) ?ks desc\<rparr>"
  from assms(2) have "k \<noteq> ?ks" by auto
  then have 1: "items (lru ?q) k = items (lru p) k \<or> items (lru ?q) k = None"
    using lru_Add_other [of k ?ks E "lru p" desc] by simp
  have 2: "items (lru p') k = items (lru ?q) k \<or> items (lru p') k = None"
    unfolding scoped_write_state [OF assms(1)] using assms(3) by (rule SetDescriptor_frame)
  from 1 2 show ?thesis by auto
qed

lemma scoped_write_other_room:
  assumes "scoped_SetDescriptor V A E rs p d desc = (None, p')"
    and "repo k \<noteq> scoped_repo rs" and "repo k \<noteq> []" and "has_room 3 (lru p)"
  shows "items (lru p') k = items (lru p) k"
proof -
  let ?ks = "\<lparr>digest = d, repo = scoped_repo rs\<rparr>"
  let ?q = "p\<lparr>lru := lru_Add E (lru p) ?ks desc\<rparr>"
  from assms(2) have ne: "k \<noteq> ?ks" by auto
  from assms(4) have r1: "has_room 1 (lru p)" by (simp add: has_room_def)
  from assms(4) have r2: "has_room 2 (lru ?q)"
    using lru_Add_has_room [of 2 "lru p" E ?ks desc] by (simp add: numeral_3_eq_3 numeral_2_eq_2)
  have "items (lru p') k = items (lru ?q) k"
    unfolding scoped_write_state [OF assms(1)] using assms(3) r2 by (rule SetDescriptor_frame_room)
  also have "\<dots> = items (lru p) k" using ne by (simp add: lru_Add_room [OF r1])
  finally show ?thesis .
qed

lemma scoped_write_own:
  assumes "scoped_SetDescriptor V A E rs p d desc = (None, p')"
  shows "items (lru p') \<lparr>digest = d, repo = scoped_repo rs\<rparr> = Some desc \<or>
         items (lru p') \<lparr>digest = d, repo = scoped_repo rs\<rparr> = None"
proof (cases "scoped_repo rs = []")
  case True
  let ?q = "p\<lparr>lru := lru_Add E (lru p) \<lparr>digest = d, repo = []\<rparr> desc\<rparr>"
  from assms have v: "V d" using scoped_SetDescriptor_success by blast
  then have "Stat V ?q d = Inr desc" by (simp add: Stat_known_iff)
  then have "SetDescriptor V A E ?q d desc = (None, ?q)" by (rule SetDescriptor_known)
  with scoped_write_state [OF assms] True show ?thesis by simp
next
  case False
  let ?ks = "\<lparr>digest = d, repo = scoped_repo rs\<rparr>"
  let ?q = "p\<lparr>lru := lru_Add E (lru p) ?ks desc\<rparr>"
  from False have "repo ?ks \<noteq> []" by simp
  then have "items (lru p') ?ks = items (lru ?q) ?ks \<or> items (lru p') ?ks = None"
    unfolding scoped_write_state [OF assms] by (rule SetDescriptor_frame)
  then show ?thesis by simp
qed

lemma scoped_write_own_room:
  assumes "scoped_SetDescriptor V A E rs p d desc = (None, p')" and "has_room 3 (lru p)"
  shows "items (lru p') \<lparr>digest = d, repo = scoped_repo rs\<rparr> = Some desc"
proof (cases "scoped_repo rs = []")
  case True
  let ?q = "p\<lparr>lru := lru_Add E (lru p) \<lparr>digest = d, repo = []\<rparr> desc\<rparr>"
  from assms have v: "V d" using scoped_SetDescriptor_success by blast
  then have "Stat V ?q d = Inr desc" by (simp add: Stat_known_iff)
  then have "SetDescriptor V A E ?q d desc = (None, ?q)" by (rule SetDescriptor_known)
  with scoped_write_state [OF assms(1)] True show ?thesis by simp
next
  case False
  let ?ks = "\<lparr>digest = d, repo = scoped_repo rs\<rparr>"
  let ?q = "p\<lparr>lru := lru_Add E (lru p) ?ks desc\<rparr>"
  from False have ne: "repo ?ks \<noteq> []" by simp
  from assms(2) have r2: "has_room 2 (lru ?q)"
    using lru_Add_has_room [of 2 "lru p" E ?ks desc] by (simp add: numeral_3_eq_3 numeral_2_eq_2)
  have "items (lru p') ?ks = items (lru ?q) ?ks"
    unfolding scoped_write_state [OF assms(1)] using ne r2 by (rule SetDescriptor_frame_room)
  then show ?thesis by simp
qed

lemma scoped_write_global:
  assumes "scoped_SetDescriptor V A E rs p d desc = (None, p')"
  shows "\<exists>x. Stat V p' d = Inr x"
proof -
  from assms have v: "V d" and w: "ValidateDescriptor V desc = None"
    using scoped_SetDescriptor_success by blast+
  show ?thesis
    unfolding scoped_write_state [OF assms]
    by (simp add: SetDescriptor_stat [OF v w] split: sum.splits)
qed

subsection \<open>The concrete collaborators on the inputs used below\<close>

lemma std_Validate_sha256 [simp]:
  "std_Validate (sha256_of CHR ''a'')" "std_Validate (sha256_of CHR ''b'')"
  by code_simp+

lemma std_Validate_sha512 [simp]: "std_Validate (sha512_of CHR ''c'')"
  by code_simp

lemma std_Validate_latest [simp]: "\<not> std_Validate ''latest''"
  by code_simp

lemma std_Algorithm_sha256 [simp]: "std_Algorithm (sha256_of c) = ''sha256''"
  by (simp add: std_Algorithm_def sha256_of_def)

lemma std_Algorithm_sha512 [simp]: "std_Algorithm (sha512_of c) = ''sha512''"
  by (simp add: std_Algorithm_def sha512_of_def)

lemma sha256_of_inject [simp]: "sha256_of c = sha256_of c' \<longleftrightarrow> c = c'"
  by (simp add: sha256_of_def)

lemma sha_distinct [simp]: "sha256_of c \<noteq> sha512_of c'" "sha512_of c' \<noteq> sha256_of c"
  by (simp_all add: sha256_of_def sha512_of_def)

lemma ValidateDescriptor_blob [simp]:
  "ValidateDescriptor V (blob d n) =
     (if V d then (if n < 0 then Some InvalidDescriptor else None) else Some InvalidDigest)"
  by (simp add: ValidateDescriptor_def blob_def dgst_Validate_def)

lemma blob_sel [simp]: "Digest (blob d n) = d" "Size (blob d n) = n"
  by (simp_all add: blob_def)

lemma blob_inject [simp]: "blob d n = blob d' n' \<longleftrightarrow> d = d' \<and> n = n'"
  by (auto simp: blob_def)

lemma fresh_items [simp]: "items (lru fresh) = Map.empty"
  by (simp add: fresh_def items_def)

lemma tiny_items [simp]: "items (lru tiny) = Map.empty"
  by (simp add: tiny_def items_def)

lemma fresh_constructed: "NewInMemoryBlobDescriptorCacheProvider DefaultSize = Inr fresh"
  by (simp add: NewInMemoryBlobDescriptorCacheProvider_def NewARC_def DefaultSize_def fresh_def)

lemma tiny_constructed: "NewInMemoryBlobDescriptorCacheProvider 1 = Inr tiny"
  by (simp add: NewInMemoryBlobDescriptorCacheProvider_def NewARC_def tiny_def)

lemma view_repo [simp]:
  "scoped_repo ubuntu = ''library/ubuntu''" "scoped_repo alpine = ''library/alpine''"
  by (simp_all add: ubuntu_def alpine_def)

lemma known_a_reached:
  "SetDescriptor std_Validate std_Algorithm E fresh (sha256_of CHR ''a'')
     (blob (sha256_of CHR ''a'') 1) = (None, known_a)"
  by (simp add: SetDescriptor_closed known_a_def lru_Add_def has_room_def)
     (simp add: fresh_def DefaultSize_def)

lemma tiny_known_a_reached:
  "SetDescriptor std_Validate std_Algorithm E tiny (sha256_of CHR ''a'')
     (blob (sha256_of CHR ''a'') 1) = (None, tiny_known_a)"
  by (simp add: SetDescriptor_closed tiny_known_a_def lru_Add_def has_room_def)
     (simp add: tiny_def)

lemma known_a_stat:
  "Stat std_Validate known_a (sha256_of CHR ''a'') = Inr (blob (sha256_of CHR ''a'') 1)"
  by (simp add: Stat_lookup known_a_def items_def)

lemma tiny_known_a_stat:
  "Stat std_Validate tiny_known_a (sha256_of CHR ''a'') = Inr (blob (sha256_of CHR ''a'') 1)"
  by (simp add: Stat_lookup tiny_known_a_def items_def)

lemma fresh_room: "has_room 3 (lru fresh)"
  by (simp add: has_room_def fresh_def DefaultSize_def)

lemma known_a_room: "has_room 3 (lru known_a)"
  by (simp add: has_room_def known_a_def DefaultSize_def)

lemma ubuntu_wrote_reached:
  "scoped_SetDescriptor std_Validate std_Algorithm E ubuntu fresh (sha256_of CHR ''a'')
     (blob (sha256_of CHR ''a'') 1) = (None, ubuntu_wrote)"
  by (simp add: scoped_SetDescriptor_valid SetDescriptor_closed lru_Add_def has_room_def
        items_def fresh_def DefaultSize_def ubuntu_wrote_def)

lemma same_algorithm_state:
  "SetDescriptor std_Validate std_Algorithm oldest fresh (sha256_of CHR ''a'')
     (blob (sha256_of CHR ''b'') 3) =
   (None, \<lparr>lru = \<lparr>capacity = DefaultSize, entries =
      [(\<lparr>digest = sha256_of CHR ''a'', repo = []\<rparr>, blob (sha256_of CHR ''b'') 3)]\<rparr>\<rparr>)"
  by (simp add: SetDescriptor_closed lru_Add_def has_room_def items_def fresh_def DefaultSize_def)

lemma tiny_alias_state:
  "SetDescriptor std_Validate std_Algorithm oldest tiny (sha256_of CHR ''a'')
     (blob (sha512_of CHR ''c'') 3) =
   (None, \<lparr>lru = \<lparr>capacity = 1, entries =
      [(\<lparr>digest = sha256_of CHR ''a'', repo = []\<rparr>, blob (sha512_of CHR ''c'') 3)]\<rparr>\<rparr>)"
  by (simp add: SetDescriptor_closed lru_Add_def has_room_def items_def victim_def oldest_def
      tiny_def)

lemma tiny_scoped_write_state:
  "scoped_SetDescriptor std_Validate std_Algorithm oldest ubuntu tiny_known_a (sha256_of CHR ''a'')
     (blob (sha256_of CHR ''a'') 2) =
   (None, \<lparr>lru = \<lparr>capacity = 1, entries =
      [(\<lparr>digest = sha256_of CHR ''a'', repo = []\<rparr>, blob (sha256_of CHR ''a'') 2)]\<rparr>\<rparr>)"
  by (simp add: scoped_SetDescriptor_valid SetDescriptor_closed lru_Add_def has_room_def
      items_def victim_def oldest_def tiny_known_a_def)

lemma ubuntu_short_write_state:
  "scoped_SetDescriptor std_Validate std_Algorithm oldest \<lparr>scoped_repo = ''ubuntu''\<rparr> fresh
     (sha256_of CHR ''a'') (blob (sha256_of CHR ''a'') 1) =
   (None, \<lparr>lru = \<lparr>capacity = DefaultSize, entries =
      [(\<lparr>digest = sha256_of CHR ''a'', repo = ''ubuntu''\<rparr>, blob (sha256_of CHR ''a'') 1),
       (\<lparr>digest = sha256_of CHR ''a'', repo = []\<rparr>, blob (sha256_of CHR ''a'') 1)]\<rparr>\<rparr>)"
  by (simp add: scoped_SetDescriptor_valid SetDescriptor_closed lru_Add_def has_room_def
      items_def fresh_def DefaultSize_def)

subsection \<open>Canonical aliasing\<close>

text \<open>
  The provider registers the descriptor's own digest only when its algorithm differs from
  that of the digest it is called with. A descriptor whose digest is another
  \<^verbatim>\<open>sha256\<close> value than the key is stored under the key alone: on the empty
  cache the call succeeds, the key answers, and the descriptor's own digest is still unknown.
  And when the algorithms differ, the two entries need room: on the empty cache of
  capacity one the call succeeds, the alias answers, and the canonical entry, written
  first, has been evicted by the alias.
\<close>

theorem canonical_aliasing_same_algorithm_counterexample:
  "Digest (blob (sha256_of CHR ''b'') 3) \<noteq> sha256_of CHR ''a'' \<and>
   Stat std_Validate fresh (sha256_of CHR ''a'') = Inl ErrBlobUnknown \<and>
   Stat std_Validate fresh (sha256_of CHR ''b'') = Inl ErrBlobUnknown \<and>
   fst (SetDescriptor std_Validate std_Algorithm oldest fresh (sha256_of CHR ''a'')
          (blob (sha256_of CHR ''b'') 3)) = None \<and>
   Stat std_Validate
     (snd (SetDescriptor std_Validate std_Algorithm oldest fresh (sha256_of CHR ''a'')
             (blob (sha256_of CHR ''b'') 3)))
     (sha256_of CHR ''a'') = Inr (blob (sha256_of CHR ''b'') 3) \<and>
   Stat std_Validate
     (snd (SetDescriptor std_Validate std_Algorithm oldest fresh (sha256_of CHR ''a'')
             (blob (sha256_of CHR ''b'') 3)))
     (sha256_of CHR ''b'') = Inl ErrBlobUnknown \<and>
   std_Algorithm (sha256_of CHR ''a'') \<noteq> std_Algorithm (Digest (blob (sha512_of CHR ''c'') 3)) \<and>
   Stat std_Validate tiny (sha256_of CHR ''a'') = Inl ErrBlobUnknown \<and>
   Stat std_Validate tiny (sha512_of CHR ''c'') = Inl ErrBlobUnknown \<and>
   fst (SetDescriptor std_Validate std_Algorithm oldest tiny (sha256_of CHR ''a'')
          (blob (sha512_of CHR ''c'') 3)) = None \<and>
   Stat std_Validate
     (snd (SetDescriptor std_Validate std_Algorithm oldest tiny (sha256_of CHR ''a'')
             (blob (sha512_of CHR ''c'') 3)))
     (sha256_of CHR ''a'') = Inr (blob (sha512_of CHR ''c'') 3) \<and>
   Stat std_Validate
     (snd (SetDescriptor std_Validate std_Algorithm oldest tiny (sha256_of CHR ''a'')
             (blob (sha512_of CHR ''c'') 3)))
     (sha512_of CHR ''c'') = Inl ErrBlobUnknown"
  by (simp add: same_algorithm_state tiny_alias_state Stat_lookup) (simp add: items_def)

text \<open>
  C1, as the code has it. Let neither \<open>dAlias\<close> nor the descriptor's own digest be known
  to the provider (so both are valid digests), let the descriptor be well formed, and let
  the two digests differ in their algorithm. Then \<open>SetDescriptor dAlias desc\<close> succeeds;
  the provider it leaves is the old one after the \<^verbatim>\<open>Add\<close> of the canonical key
  followed by the \<^verbatim>\<open>Add\<close> of the alias key, and \<open>Stat dAlias\<close> answers \<open>desc\<close>. When
  the store has room for two more entries, the canonical entry and then the alias entry
  are appended to its entries, in this order, and \<open>Stat\<close> answers \<open>desc\<close> for the
  canonical digest too.
\<close>

theorem canonical_aliasing:
  assumes "Stat V p dAlias = Inl ErrBlobUnknown"
    and "Stat V p (Digest desc) = Inl ErrBlobUnknown"
    and "ValidateDescriptor V desc = None"
    and "A dAlias \<noteq> A (Digest desc)"
  shows "SetDescriptor V A E p dAlias desc =
           (None, p\<lparr>lru := lru_Add E
                      (lru_Add E (lru p) \<lparr>digest = Digest desc, repo = []\<rparr> desc)
                      \<lparr>digest = dAlias, repo = []\<rparr> desc\<rparr>) \<and>
         Stat V (snd (SetDescriptor V A E p dAlias desc)) dAlias = Inr desc \<and>
         (has_room 2 (lru p) \<longrightarrow>
            entries (lru (snd (SetDescriptor V A E p dAlias desc))) =
              entries (lru p) @ [(\<lparr>digest = Digest desc, repo = []\<rparr>, desc),
                                 (\<lparr>digest = dAlias, repo = []\<rparr>, desc)] \<and>
            Stat V (snd (SetDescriptor V A E p dAlias desc)) (Digest desc) = Inr desc)"
proof (intro conjI impI)
  let ?kc = "\<lparr>digest = Digest desc, repo = []\<rparr>"
  let ?ka = "\<lparr>digest = dAlias, repo = []\<rparr>"
  from assms(4) have ne: "dAlias \<noteq> Digest desc" by auto
  from assms have va: "V dAlias" and vc: "V (Digest desc)"
    and ma: "items (lru p) ?ka = None" and mc: "items (lru p) ?kc = None"
    by (simp_all add: Stat_unknown_iff)
  show res: "SetDescriptor V A E p dAlias desc =
           (None, p\<lparr>lru := lru_Add E (lru_Add E (lru p) ?kc desc) ?ka desc\<rparr>)"
    by (simp add: SetDescriptor_closed va ma mc assms(3,4))
  show "Stat V (snd (SetDescriptor V A E p dAlias desc)) dAlias = Inr desc"
    by (simp add: res Stat_lookup va)
  assume room: "has_room 2 (lru p)"
  then have r1: "has_room 1 (lru p)" by (simp add: has_room_def)
  from room have r2: "has_room 1 (lru_Add E (lru p) ?kc desc)"
    using lru_Add_has_room [of 1 "lru p" E ?kc desc] by (simp add: numeral_2_eq_2)
  have e1: "entries (lru_Add E (lru p) ?kc desc) = entries (lru p) @ [(?kc, desc)]"
    using mc r1 by (rule lru_Add_new)
  have "items (lru_Add E (lru p) ?kc desc) ?ka = None"
    using ne ma by (simp add: lru_Add_room [OF r1])
  then have e2: "entries (lru_Add E (lru_Add E (lru p) ?kc desc) ?ka desc)
                   = entries (lru_Add E (lru p) ?kc desc) @ [(?ka, desc)]"
    using r2 by (rule lru_Add_new)
  show "entries (lru (snd (SetDescriptor V A E p dAlias desc))) =
          entries (lru p) @ [(?kc, desc), (?ka, desc)]"
    by (simp add: res e1 e2)
  show "Stat V (snd (SetDescriptor V A E p dAlias desc)) (Digest desc) = Inr desc"
    using ne by (simp add: res Stat_lookup vc lru_Add_room [OF r2] lru_Add_room [OF r1])
qed

theorem canonical_aliasing_witness:
  "Stat std_Validate fresh (sha256_of CHR ''a'') = Inl ErrBlobUnknown \<and>
   Stat std_Validate fresh (Digest (blob (sha512_of CHR ''c'') 3)) = Inl ErrBlobUnknown \<and>
   ValidateDescriptor std_Validate (blob (sha512_of CHR ''c'') 3) = None \<and>
   std_Algorithm (sha256_of CHR ''a'') \<noteq> std_Algorithm (Digest (blob (sha512_of CHR ''c'') 3)) \<and>
   has_room 2 (lru fresh) \<and>
   fst (SetDescriptor std_Validate std_Algorithm oldest fresh (sha256_of CHR ''a'')
          (blob (sha512_of CHR ''c'') 3)) = None \<and>
   Stat std_Validate
     (snd (SetDescriptor std_Validate std_Algorithm oldest fresh (sha256_of CHR ''a'')
             (blob (sha512_of CHR ''c'') 3)))
     (sha256_of CHR ''a'') = Inr (blob (sha512_of CHR ''c'') 3) \<and>
   entries (lru (snd (SetDescriptor std_Validate std_Algorithm oldest fresh (sha256_of CHR ''a'')
                       (blob (sha512_of CHR ''c'') 3)))) =
     [(\<lparr>digest = sha512_of CHR ''c'', repo = []\<rparr>, blob (sha512_of CHR ''c'') 3),
      (\<lparr>digest = sha256_of CHR ''a'', repo = []\<rparr>, blob (sha512_of CHR ''c'') 3)] \<and>
   Stat std_Validate
     (snd (SetDescriptor std_Validate std_Algorithm oldest fresh (sha256_of CHR ''a'')
             (blob (sha512_of CHR ''c'') 3)))
     (sha512_of CHR ''c'') = Inr (blob (sha512_of CHR ''c'') 3)"
proof -
  have h1: "Stat std_Validate fresh (sha256_of CHR ''a'') = Inl ErrBlobUnknown"
    by (simp add: Stat_lookup)
  have h2: "Stat std_Validate fresh (Digest (blob (sha512_of CHR ''c'') 3)) = Inl ErrBlobUnknown"
    by (simp add: Stat_lookup)
  have h3: "ValidateDescriptor std_Validate (blob (sha512_of CHR ''c'') 3) = None"
    by simp
  have h4: "std_Algorithm (sha256_of CHR ''a'') \<noteq> std_Algorithm (Digest (blob (sha512_of CHR ''c'') 3))"
    by simp
  have h5: "has_room 2 (lru fresh)"
    by (simp add: has_room_def fresh_def DefaultSize_def)
  have e: "entries (lru fresh) = []" by (simp add: fresh_def)
  note t = canonical_aliasing [OF h1 h2 h3 h4, of oldest]
  from t have a: "fst (SetDescriptor std_Validate std_Algorithm oldest fresh (sha256_of CHR ''a'')
          (blob (sha512_of CHR ''c'') 3)) = None" by simp
  from t have b: "Stat std_Validate
     (snd (SetDescriptor std_Validate std_Algorithm oldest fresh (sha256_of CHR ''a'')
             (blob (sha512_of CHR ''c'') 3)))
     (sha256_of CHR ''a'') = Inr (blob (sha512_of CHR ''c'') 3)" by blast
  from t h5 have "entries (lru (snd (SetDescriptor std_Validate std_Algorithm oldest fresh
                       (sha256_of CHR ''a'') (blob (sha512_of CHR ''c'') 3)))) =
     entries (lru fresh) @
     [(\<lparr>digest = Digest (blob (sha512_of CHR ''c'') 3), repo = []\<rparr>, blob (sha512_of CHR ''c'') 3),
      (\<lparr>digest = sha256_of CHR ''a'', repo = []\<rparr>, blob (sha512_of CHR ''c'') 3)]" by blast
  with e have c: "entries (lru (snd (SetDescriptor std_Validate std_Algorithm oldest fresh
                       (sha256_of CHR ''a'') (blob (sha512_of CHR ''c'') 3)))) =
     [(\<lparr>digest = sha512_of CHR ''c'', repo = []\<rparr>, blob (sha512_of CHR ''c'') 3),
      (\<lparr>digest = sha256_of CHR ''a'', repo = []\<rparr>, blob (sha512_of CHR ''c'') 3)]" by simp
  from t h5 have "Stat std_Validate
     (snd (SetDescriptor std_Validate std_Algorithm oldest fresh (sha256_of CHR ''a'')
             (blob (sha512_of CHR ''c'') 3)))
     (Digest (blob (sha512_of CHR ''c'') 3)) = Inr (blob (sha512_of CHR ''c'') 3)" by blast
  then have d: "Stat std_Validate
     (snd (SetDescriptor std_Validate std_Algorithm oldest fresh (sha256_of CHR ''a'')
             (blob (sha512_of CHR ''c'') 3)))
     (sha512_of CHR ''c'') = Inr (blob (sha512_of CHR ''c'') 3)" by simp
  from h1 h2 h3 h4 h5 a b c d show ?thesis by blast
qed

subsection \<open>The validation gate\<close>

text \<open>
  \<open>Clear\<close> never looks at the digest: neither the provider's nor the view's calls
  \<^verbatim>\<open>Validate\<close>, and both return \<^verbatim>\<open>nil\<close>. On a string that is no digest the call
  succeeds.
\<close>

theorem clear_accepts_invalid_digest_counterexample:
  "\<not> std_Validate ''latest'' \<and>
   fst (Clear fresh ''latest'') = None \<and>
   fst (scoped_Clear ubuntu fresh ''latest'') = None"
  by (simp add: Clear_def scoped_Clear_def)

text \<open>
  C2, as the code has it. For a digest that \<^verbatim>\<open>Validate\<close> refuses, \<open>Stat\<close> and
  \<open>SetDescriptor\<close>, on the provider and on any view, fail with \<open>InvalidDigest\<close> and leave
  the provider as it was (\<open>Stat\<close> only reads it). \<open>Clear\<close> does not validate and returns no error, on the provider
  and on any view; it removes the entry under the key it is given, so it leaves a provider
  unchanged whose keys all carry valid digests, as every provider built by these
  operations does.
\<close>

theorem validation_gate:
  assumes "\<not> V d"
  shows "Stat V p d = Inl InvalidDigest \<and>
         SetDescriptor V A E p d desc = (Some InvalidDigest, p) \<and>
         scoped_Stat V rs p d = Inl InvalidDigest \<and>
         scoped_SetDescriptor V A E rs p d desc = (Some InvalidDigest, p) \<and>
         fst (Clear p d) = None \<and>
         fst (scoped_Clear rs p d) = None \<and>
         ((\<forall>k. items (lru p) k \<noteq> None \<longrightarrow> V (digest k)) \<longrightarrow>
            Clear p d = (None, p) \<and> scoped_Clear rs p d = (None, p))"
proof -
  have "Clear p d = (None, p) \<and> scoped_Clear rs p d = (None, p)"
    if inv: "\<forall>k. items (lru p) k \<noteq> None \<longrightarrow> V (digest k)"
  proof -
    have "items (lru p) k = None" if "digest k = d" for k
      using inv assms that by auto
    then show ?thesis by (simp add: Clear_absent scoped_Clear_absent)
  qed
  with assms show ?thesis
    by (simp add: Stat_lookup scoped_Stat_lookup SetDescriptor_invalid
        scoped_SetDescriptor_invalid Clear_def scoped_Clear_def)
qed

theorem validation_gate_witness:
  "\<not> std_Validate ''latest'' \<and>
   Stat std_Validate known_a ''latest'' = Inl InvalidDigest \<and>
   SetDescriptor std_Validate std_Algorithm oldest known_a ''latest'' (blob (sha256_of CHR ''b'') 3)
     = (Some InvalidDigest, known_a) \<and>
   scoped_Stat std_Validate ubuntu known_a ''latest'' = Inl InvalidDigest \<and>
   scoped_SetDescriptor std_Validate std_Algorithm oldest ubuntu known_a ''latest''
     (blob (sha256_of CHR ''b'') 3) = (Some InvalidDigest, known_a) \<and>
   Clear known_a ''latest'' = (None, known_a) \<and>
   scoped_Clear ubuntu known_a ''latest'' = (None, known_a)"
proof -
  have h: "\<not> std_Validate ''latest''" by simp
  have inv: "\<forall>k. items (lru known_a) k \<noteq> None \<longrightarrow> std_Validate (digest k)"
    by (auto simp: known_a_def items_def split: if_splits)
  from validation_gate [where V = std_Validate and d = "''latest''" and p = known_a
      and A = std_Algorithm and E = oldest and desc = "blob (sha256_of CHR ''b'') 3" and rs = ubuntu] inv h
  show ?thesis by blast
qed

subsection \<open>First writer wins\<close>

text \<open>
  C3. An entry the provider holds for a digest is never overwritten: when \<open>Stat\<close> answers
  for \<open>d\<close>, a \<open>SetDescriptor\<close> for \<open>d\<close> returns no error and leaves the provider as it
  was. So for the first writer: when \<open>d\<close> is not yet known (\<open>Stat\<close> reports the unknown
  blob, which needs \<open>d\<close> to be valid) and \<open>descA\<close> is well formed, \<open>SetDescriptor d descA\<close>
  followed by \<open>SetDescriptor d descB\<close>, for any \<open>descB\<close>, leaves \<open>Stat d\<close> answering
  \<open>descA\<close>.
\<close>

theorem first_writer_wins:
  "(Stat V p d = Inr x \<longrightarrow> SetDescriptor V A E p d descB = (None, p)) \<and>
   (Stat V p d = Inl ErrBlobUnknown \<and> ValidateDescriptor V descA = None \<longrightarrow>
      (\<exists>p1. SetDescriptor V A E p d descA = (None, p1) \<and>
            SetDescriptor V A E p1 d descB = (None, p1) \<and>
            Stat V p1 d = Inr descA))"
proof (intro conjI impI)
  assume "Stat V p d = Inr x"
  then show "SetDescriptor V A E p d descB = (None, p)" by (rule SetDescriptor_known)
next
  assume a: "Stat V p d = Inl ErrBlobUnknown \<and> ValidateDescriptor V descA = None"
  then have v: "V d" and m: "items (lru p) \<lparr>digest = d, repo = []\<rparr> = None"
    by (simp_all add: Stat_unknown_iff)
  obtain p1 where 1: "SetDescriptor V A E p d descA = (None, p1)"
    and it: "items (lru p1) \<lparr>digest = d, repo = []\<rparr> = Some descA"
    using a v m by (simp add: SetDescriptor_closed)
  from v it have 2: "Stat V p1 d = Inr descA" by (simp add: Stat_known_iff)
  then have 3: "SetDescriptor V A E p1 d descB = (None, p1)" by (rule SetDescriptor_known)
  from 1 2 3 show "\<exists>p1. SetDescriptor V A E p d descA = (None, p1) \<and>
            SetDescriptor V A E p1 d descB = (None, p1) \<and> Stat V p1 d = Inr descA"
    by blast
qed

theorem first_writer_wins_witness:
  "Stat std_Validate known_a (sha256_of CHR ''a'') = Inr (blob (sha256_of CHR ''a'') 1) \<and>
   SetDescriptor std_Validate std_Algorithm oldest known_a (sha256_of CHR ''a'')
     (blob (sha256_of CHR ''a'') 2) = (None, known_a) \<and>
   Stat std_Validate fresh (sha256_of CHR ''a'') = Inl ErrBlobUnknown \<and>
   ValidateDescriptor std_Validate (blob (sha256_of CHR ''a'') 1) = None \<and>
   blob (sha256_of CHR ''a'') 1 \<noteq> blob (sha256_of CHR ''a'') 2 \<and>
   (\<exists>p1. SetDescriptor std_Validate std_Algorithm oldest fresh (sha256_of CHR ''a'')
            (blob (sha256_of CHR ''a'') 1) = (None, p1) \<and>
         SetDescriptor std_Validate std_Algorithm oldest p1 (sha256_of CHR ''a'')
            (blob (sha256_of CHR ''a'') 2) = (None, p1) \<and>
         Stat std_Validate p1 (sha256_of CHR ''a'') = Inr (blob (sha256_of CHR ''a'') 1))"
proof -
  have h1: "Stat std_Validate fresh (sha256_of CHR ''a'') = Inl ErrBlobUnknown"
    by (simp add: Stat_lookup)
  have h2: "ValidateDescriptor std_Validate (blob (sha256_of CHR ''a'') 1) = None" by simp
  have h3: "blob (sha256_of CHR ''a'') 1 \<noteq> blob (sha256_of CHR ''a'') 2" by simp
  from first_writer_wins [where V = std_Validate and A = std_Algorithm and E = oldest and p = known_a
      and d = "sha256_of CHR ''a''" and x = "blob (sha256_of CHR ''a'') 1"
      and descB = "blob (sha256_of CHR ''a'') 2"] known_a_stat
  have a: "SetDescriptor std_Validate std_Algorithm oldest known_a (sha256_of CHR ''a'')
     (blob (sha256_of CHR ''a'') 2) = (None, known_a)" by blast
  from first_writer_wins [where V = std_Validate and A = std_Algorithm and E = oldest and p = fresh
      and d = "sha256_of CHR ''a''" and descA = "blob (sha256_of CHR ''a'') 1"
      and descB = "blob (sha256_of CHR ''a'') 2"] h1 h2
  have b: "\<exists>p1. SetDescriptor std_Validate std_Algorithm oldest fresh (sha256_of CHR ''a'')
            (blob (sha256_of CHR ''a'') 1) = (None, p1) \<and>
         SetDescriptor std_Validate std_Algorithm oldest p1 (sha256_of CHR ''a'')
            (blob (sha256_of CHR ''a'') 2) = (None, p1) \<and>
         Stat std_Validate p1 (sha256_of CHR ''a'') = Inr (blob (sha256_of CHR ''a'') 1)" by blast
  from known_a_stat a h1 h2 h3 b show ?thesis by blast
qed

subsection \<open>Repository isolation\<close>

text \<open>
  C4. Let a write through the view of repository \<open>R1\<close> succeed, and let \<open>R2\<close> be another
  repository (its name is not empty: the empty name is the global scope). Whatever the
  store evicts, the write creates nothing under \<open>R2\<close>: the view of \<open>R2\<close> answers a
  digest as before the write or no longer knows it, so a digest it failed on before it
  fails on after, with the same error; and the provider's own \<open>Stat d\<close> succeeds after
  the write. With room for three more entries the view of \<open>R2\<close> answers every digest
  as before.
\<close>

theorem repository_isolation:
  assumes "scoped_SetDescriptor V A E r1 p d desc = (None, p')"
    and "scoped_repo r2 \<noteq> scoped_repo r1"
    and "scoped_repo r2 \<noteq> []"
  shows "(scoped_Stat V r2 p' d' = scoped_Stat V r2 p d' \<or>
          scoped_Stat V r2 p' d' = Inl ErrBlobUnknown) \<and>
         (scoped_Stat V r2 p d' = Inl e \<longrightarrow> scoped_Stat V r2 p' d' = Inl e) \<and>
         (\<exists>x. Stat V p' d = Inr x) \<and>
         (has_room 3 (lru p) \<longrightarrow> scoped_Stat V r2 p' d' = scoped_Stat V r2 p d')"
proof (intro conjI impI)
  let ?k = "\<lparr>digest = d', repo = scoped_repo r2\<rparr>"
  have k: "repo ?k \<noteq> scoped_repo r1" "repo ?k \<noteq> []" using assms(2,3) by simp_all
  from scoped_write_other [OF assms(1) k]
  have any: "items (lru p') ?k = items (lru p) ?k \<or> items (lru p') ?k = None" .
  then show "scoped_Stat V r2 p' d' = scoped_Stat V r2 p d' \<or>
             scoped_Stat V r2 p' d' = Inl ErrBlobUnknown"
    by (auto simp: scoped_Stat_lookup)
  show "\<exists>x. Stat V p' d = Inr x" using assms(1) by (rule scoped_write_global)
  {
    assume "scoped_Stat V r2 p d' = Inl e"
    with any show "scoped_Stat V r2 p' d' = Inl e"
      by (auto simp: scoped_Stat_lookup split: if_splits option.splits)
  }
  {
    assume "has_room 3 (lru p)"
    with scoped_write_other_room [OF assms(1) k]
    have "items (lru p') ?k = items (lru p) ?k" .
    then show "scoped_Stat V r2 p' d' = scoped_Stat V r2 p d'"
      by (simp add: scoped_Stat_lookup)
  }
qed

theorem repository_isolation_witness:
  "scoped_SetDescriptor std_Validate std_Algorithm oldest ubuntu fresh (sha256_of CHR ''a'')
     (blob (sha256_of CHR ''a'') 1) = (None, ubuntu_wrote) \<and>
   scoped_repo alpine \<noteq> scoped_repo ubuntu \<and>
   scoped_repo alpine \<noteq> [] \<and>
   has_room 3 (lru fresh) \<and>
   scoped_Stat std_Validate alpine fresh (sha256_of CHR ''a'') = Inl ErrBlobUnknown \<and>
   scoped_Stat std_Validate alpine ubuntu_wrote (sha256_of CHR ''a'') = Inl ErrBlobUnknown \<and>
   scoped_Stat std_Validate alpine ubuntu_wrote (sha256_of CHR ''a'')
     = scoped_Stat std_Validate alpine fresh (sha256_of CHR ''a'') \<and>
   (\<exists>x. Stat std_Validate ubuntu_wrote (sha256_of CHR ''a'') = Inr x)"
proof -
  have h2: "scoped_repo alpine \<noteq> scoped_repo ubuntu" by simp
  have h3: "scoped_repo alpine \<noteq> []" by simp
  have before: "scoped_Stat std_Validate alpine fresh (sha256_of CHR ''a'') = Inl ErrBlobUnknown"
    by (simp add: scoped_Stat_lookup)
  note t = repository_isolation [OF ubuntu_wrote_reached h2 h3,
      where d' = "sha256_of CHR ''a''" and e = ErrBlobUnknown]
  from t before
  have a: "scoped_Stat std_Validate alpine ubuntu_wrote (sha256_of CHR ''a'') = Inl ErrBlobUnknown"
    by blast
  from t fresh_room
  have b: "scoped_Stat std_Validate alpine ubuntu_wrote (sha256_of CHR ''a'')
     = scoped_Stat std_Validate alpine fresh (sha256_of CHR ''a'')" by blast
  from t have c: "\<exists>x. Stat std_Validate ubuntu_wrote (sha256_of CHR ''a'') = Inr x" by blast
  from ubuntu_wrote_reached h2 h3 fresh_room before a b c show ?thesis by blast
qed

subsection \<open>Clearing through a view\<close>

text \<open>
  C5. \<open>Clear d\<close> on the view of a repository \<open>R\<close> (its name is not empty) returns no
  error and removes the key of \<open>d\<close> under \<open>R\<close> and nothing else: every other key of the
  cache holds what it held, and the provider's \<open>Stat\<close> answers every digest as before the
  clear. So after a successful write of \<open>d\<close> through the view, the view's \<open>Clear d\<close>
  leaves the view without \<open>d\<close>, and the provider's \<open>Stat d\<close> still succeeds, whatever
  the store evicted during the write. (With room for three more entries the write had
  made the view answer \<open>desc\<close> for \<open>d\<close>.)
\<close>

theorem scoped_clear_asymmetry:
  assumes "scoped_repo rs \<noteq> []"
  shows "scoped_Clear rs q d =
           (None, q\<lparr>lru := lru_Remove (lru q) \<lparr>digest = d, repo = scoped_repo rs\<rparr>\<rparr>) \<and>
         (\<forall>k. k = \<lparr>digest = d, repo = scoped_repo rs\<rparr> \<or>
              lru_Get (lru (snd (scoped_Clear rs q d))) k = lru_Get (lru q) k) \<and>
         Stat V (snd (scoped_Clear rs q d)) d' = Stat V q d' \<and>
         (scoped_SetDescriptor V A E rs p d desc = (None, q) \<longrightarrow>
            scoped_Stat V rs (snd (scoped_Clear rs q d)) d = Inl ErrBlobUnknown \<and>
            (\<exists>x. Stat V (snd (scoped_Clear rs q d)) d = Inr x) \<and>
            (has_room 3 (lru p) \<longrightarrow> scoped_Stat V rs q d = Inr desc))"
proof (intro conjI impI)
  let ?k = "\<lparr>digest = d, repo = scoped_repo rs\<rparr>"
  let ?q2 = "q\<lparr>lru := lru_Remove (lru q) ?k\<rparr>"
  show 1: "scoped_Clear rs q d = (None, ?q2)" by (simp add: scoped_Clear_def)
  show "\<forall>k. k = ?k \<or> lru_Get (lru (snd (scoped_Clear rs q d))) k = lru_Get (lru q) k"
    by (simp add: 1 lru_Get_def)
  have 2: "Stat V (snd (scoped_Clear rs q d)) e = Stat V q e" for e
    using assms by (auto simp: 1 Stat_lookup)
  show "Stat V (snd (scoped_Clear rs q d)) d' = Stat V q d'" by (rule 2)
  assume w: "scoped_SetDescriptor V A E rs p d desc = (None, q)"
  from w have v: "V d" using scoped_SetDescriptor_success by blast
  from v show "scoped_Stat V rs (snd (scoped_Clear rs q d)) d = Inl ErrBlobUnknown"
    by (simp add: 1 scoped_Stat_lookup)
  from scoped_write_global [OF w]
  show "\<exists>x. Stat V (snd (scoped_Clear rs q d)) d = Inr x" by (simp add: 2)
  assume "has_room 3 (lru p)"
  with w have "items (lru q) ?k = Some desc" by (rule scoped_write_own_room)
  with v show "scoped_Stat V rs q d = Inr desc" by (simp add: scoped_Stat_lookup)
qed

theorem scoped_clear_asymmetry_witness:
  "scoped_repo ubuntu \<noteq> [] \<and>
   scoped_SetDescriptor std_Validate std_Algorithm oldest ubuntu fresh (sha256_of CHR ''a'')
     (blob (sha256_of CHR ''a'') 1) = (None, ubuntu_wrote) \<and>
   has_room 3 (lru fresh) \<and>
   scoped_Clear ubuntu ubuntu_wrote (sha256_of CHR ''a'') = (None, known_a) \<and>
   scoped_Stat std_Validate ubuntu ubuntu_wrote (sha256_of CHR ''a'')
     = Inr (blob (sha256_of CHR ''a'') 1) \<and>
   scoped_Stat std_Validate ubuntu known_a (sha256_of CHR ''a'') = Inl ErrBlobUnknown \<and>
   Stat std_Validate known_a (sha256_of CHR ''a'') = Inr (blob (sha256_of CHR ''a'') 1) \<and>
   Stat std_Validate ubuntu_wrote (sha256_of CHR ''a'') = Inr (blob (sha256_of CHR ''a'') 1)"
proof -
  have h: "scoped_repo ubuntu \<noteq> []" by simp
  have c: "scoped_Clear ubuntu ubuntu_wrote (sha256_of CHR ''a'') = (None, known_a)"
    by (simp add: scoped_Clear_def ubuntu_wrote_def known_a_def lru_Remove_def)
  note t = scoped_clear_asymmetry [OF h, where V = std_Validate and A = std_Algorithm
      and E = oldest and p = fresh and d = "sha256_of CHR ''a''"
      and desc = "blob (sha256_of CHR ''a'') 1" and q = ubuntu_wrote
      and d' = "sha256_of CHR ''a''"]
  from t ubuntu_wrote_reached fresh_room
  have a: "scoped_Stat std_Validate ubuntu ubuntu_wrote (sha256_of CHR ''a'')
     = Inr (blob (sha256_of CHR ''a'') 1)" by blast
  from t ubuntu_wrote_reached
  have "scoped_Stat std_Validate ubuntu (snd (scoped_Clear ubuntu ubuntu_wrote (sha256_of CHR ''a'')))
          (sha256_of CHR ''a'') = Inl ErrBlobUnknown" by blast
  with c have b: "scoped_Stat std_Validate ubuntu known_a (sha256_of CHR ''a'') = Inl ErrBlobUnknown"
    by simp
  from t have "Stat std_Validate (snd (scoped_Clear ubuntu ubuntu_wrote (sha256_of CHR ''a'')))
          (sha256_of CHR ''a'') = Stat std_Validate ubuntu_wrote (sha256_of CHR ''a'')" by blast
  with c known_a_stat
  have e: "Stat std_Validate ubuntu_wrote (sha256_of CHR ''a'') = Inr (blob (sha256_of CHR ''a'') 1)"
    by simp
  from h ubuntu_wrote_reached fresh_room c a b known_a_stat e show ?thesis by blast
qed

subsection \<open>Writing and reading back\<close>

text \<open>
  A \<open>SetDescriptor\<close> for a digest the provider already knows returns no error and writes
  nothing. After a first descriptor is stored for a digest, the call with a second one,
  valid and with the same digest but another size, succeeds, and \<open>Stat\<close> still answers
  the first.
\<close>

theorem round_trip_known_digest_counterexample:
  "std_Validate (sha256_of CHR ''a'') \<and>
   ValidateDescriptor std_Validate (blob (sha256_of CHR ''a'') 2) = None \<and>
   Digest (blob (sha256_of CHR ''a'') 2) = sha256_of CHR ''a'' \<and>
   fst (SetDescriptor std_Validate std_Algorithm oldest
          (snd (SetDescriptor std_Validate std_Algorithm oldest fresh (sha256_of CHR ''a'')
                  (blob (sha256_of CHR ''a'') 1)))
          (sha256_of CHR ''a'') (blob (sha256_of CHR ''a'') 2)) = None \<and>
   Stat std_Validate
     (snd (SetDescriptor std_Validate std_Algorithm oldest
             (snd (SetDescriptor std_Validate std_Algorithm oldest fresh (sha256_of CHR ''a'')
                     (blob (sha256_of CHR ''a'') 1)))
             (sha256_of CHR ''a'') (blob (sha256_of CHR ''a'') 2)))
     (sha256_of CHR ''a'') = Inr (blob (sha256_of CHR ''a'') 1) \<and>
   blob (sha256_of CHR ''a'') 1 \<noteq> blob (sha256_of CHR ''a'') 2"
  by (simp add: SetDescriptor_closed Stat_lookup)

text \<open>
  C6, as the code has it. For a valid digest \<open>d\<close> that the provider does not know yet and
  a well-formed descriptor whose digest is \<open>d\<close>, \<open>SetDescriptor d desc\<close> succeeds and
  \<open>Stat d\<close> then answers exactly \<open>desc\<close>.
\<close>

theorem round_trip:
  assumes "V d" and "ValidateDescriptor V desc = None" and "Digest desc = d"
    and "Stat V p d = Inl ErrBlobUnknown"
  shows "\<exists>p'. SetDescriptor V A E p d desc = (None, p') \<and> Stat V p' d = Inr desc"
proof -
  have "fst (SetDescriptor V A E p d desc) = None"
    using assms(1,2) by (rule SetDescriptor_succeeds)
  moreover have "Stat V (snd (SetDescriptor V A E p d desc)) d = Inr desc"
    using assms(4) by (simp add: SetDescriptor_stat [OF assms(1,2)])
  ultimately show ?thesis by (cases "SetDescriptor V A E p d desc") auto
qed

theorem round_trip_witness:
  "std_Validate (sha256_of CHR ''a'') \<and>
   ValidateDescriptor std_Validate (blob (sha256_of CHR ''a'') 1) = None \<and>
   Digest (blob (sha256_of CHR ''a'') 1) = sha256_of CHR ''a'' \<and>
   Stat std_Validate fresh (sha256_of CHR ''a'') = Inl ErrBlobUnknown \<and>
   (\<exists>p'. SetDescriptor std_Validate std_Algorithm oldest fresh (sha256_of CHR ''a'')
            (blob (sha256_of CHR ''a'') 1) = (None, p') \<and>
         Stat std_Validate p' (sha256_of CHR ''a'') = Inr (blob (sha256_of CHR ''a'') 1))"
proof -
  have h1: "std_Validate (sha256_of CHR ''a'')" by simp
  have h2: "ValidateDescriptor std_Validate (blob (sha256_of CHR ''a'') 1) = None" by simp
  have h3: "Digest (blob (sha256_of CHR ''a'') 1) = sha256_of CHR ''a''" by simp
  have h4: "Stat std_Validate fresh (sha256_of CHR ''a'') = Inl ErrBlobUnknown"
    by (simp add: Stat_lookup)
  from round_trip [OF h1 h2 h3 h4] h1 h2 h3 h4 show ?thesis by blast
qed

subsection \<open>The capacity at construction\<close>

text \<open>
  The constructor does not refuse a capacity: zero and a negative one give an empty
  provider of unlimited capacity.
\<close>

theorem capacity_not_positive_counterexample:
  "NewInMemoryBlobDescriptorCacheProvider 0 =
     Inr \<lparr>lru = \<lparr>capacity = MaxInt, entries = []\<rparr>\<rparr> \<and>
   NewInMemoryBlobDescriptorCacheProvider (- 1) =
     Inr \<lparr>lru = \<lparr>capacity = MaxInt, entries = []\<rparr>\<rparr>"
  using MaxInt_positive by (simp add: NewInMemoryBlobDescriptorCacheProvider_def NewARC_def)

text \<open>
  C7, as the code has it. For a capacity that is zero or negative the constructor of the
  provider succeeds: it returns an empty provider whose store has the unlimited capacity
  \<^verbatim>\<open>math.MaxInt\<close>. It is the constructor of the store that refuses such a capacity, and
  the provider never hands it one.
\<close>

theorem capacity_not_positive:
  assumes "n \<le> 0"
  shows "NewInMemoryBlobDescriptorCacheProvider n =
           Inr \<lparr>lru = \<lparr>capacity = UnlimitedSize, entries = []\<rparr>\<rparr> \<and>
         NewARC n = Inl ErrARCSize"
  using assms MaxInt_positive
  by (simp add: NewInMemoryBlobDescriptorCacheProvider_def NewARC_def UnlimitedSize_def)

theorem capacity_not_positive_witness:
  "(- 5 :: int) \<le> 0 \<and>
   NewInMemoryBlobDescriptorCacheProvider (- 5) =
     Inr \<lparr>lru = \<lparr>capacity = UnlimitedSize, entries = []\<rparr>\<rparr> \<and>
   NewARC (- 5) = Inl ErrARCSize"
proof -
  have h: "(- 5 :: int) \<le> 0" by simp
  from capacity_not_positive [OF h] h show ?thesis by simp
qed

subsection \<open>The repository name of a view\<close>

text \<open>
  \<open>RepositoryScoped\<close> parses the name and drops the result: the view keeps the name it
  was given. For \<^verbatim>\<open>ubuntu\<close>, which normalizes to \<^verbatim>\<open>docker.io/library/ubuntu\<close>,
  the view writes its entry under \<^verbatim>\<open>ubuntu\<close>, and nothing under the normalized name.
\<close>

theorem scoped_view_keys_counterexample:
  "std_ParseNormalizedNamed ''ubuntu'' = Some ''docker.io/library/ubuntu'' \<and>
   RepositoryScoped std_ParseNormalizedNamed fresh ''ubuntu'' = Inr \<lparr>scoped_repo = ''ubuntu''\<rparr> \<and>
   fst (scoped_SetDescriptor std_Validate std_Algorithm oldest \<lparr>scoped_repo = ''ubuntu''\<rparr> fresh
          (sha256_of CHR ''a'') (blob (sha256_of CHR ''a'') 1)) = None \<and>
   lru_Get (lru (snd (scoped_SetDescriptor std_Validate std_Algorithm oldest
                        \<lparr>scoped_repo = ''ubuntu''\<rparr>
                        fresh (sha256_of CHR ''a'') (blob (sha256_of CHR ''a'') 1))))
     \<lparr>digest = sha256_of CHR ''a'', repo = ''ubuntu''\<rparr> = Some (blob (sha256_of CHR ''a'') 1) \<and>
   lru_Get (lru (snd (scoped_SetDescriptor std_Validate std_Algorithm oldest
                        \<lparr>scoped_repo = ''ubuntu''\<rparr>
                        fresh (sha256_of CHR ''a'') (blob (sha256_of CHR ''a'') 1))))
     \<lparr>digest = sha256_of CHR ''a'', repo = ''docker.io/library/ubuntu''\<rparr> = None"
  by (simp add: std_ParseNormalizedNamed_def RepositoryScoped_def ubuntu_short_write_state
      lru_Get_def items_def)

text \<open>
  C8, as the code has it. \<open>RepositoryScoped\<close> fails with \<open>InvalidRepositoryName\<close> when
  the name cannot be normalized. A view it returns carries the name as it was supplied:
  \<open>Stat\<close> reads the key of the digest under that name, \<open>Clear\<close> removes that key, and a
  successful \<open>SetDescriptor\<close> adds the descriptor under that key and then forwards to
  the provider, which writes keys of the global scope only. After the write the view's
  key holds the descriptor or, if a later \<^verbatim>\<open>Add\<close> of the same call evicted it,
  nothing; a key of another repository holds what it held, or nothing if it was
  evicted. With room for three more entries the view's key holds the descriptor and
  every key of another repository holds what it held.
\<close>

theorem scoped_view_keys:
  "(P name = None \<longrightarrow> RepositoryScoped P p name = Inl InvalidRepositoryName) \<and>
   (RepositoryScoped P p name = Inr rs \<longrightarrow>
      scoped_repo rs = name \<and>
      scoped_Stat V rs q d =
        (if V d then (case lru_Get (lru q) \<lparr>digest = d, repo = name\<rparr> of
                        Some x \<Rightarrow> Inr x | None \<Rightarrow> Inl ErrBlobUnknown)
         else Inl InvalidDigest) \<and>
      scoped_Clear rs q d = (None, q\<lparr>lru := lru_Remove (lru q) \<lparr>digest = d, repo = name\<rparr>\<rparr>) \<and>
      (\<forall>q'. scoped_SetDescriptor V A E rs q d desc = (None, q') \<longrightarrow>
         q' = snd (SetDescriptor V A E
                     (q\<lparr>lru := lru_Add E (lru q) \<lparr>digest = d, repo = name\<rparr> desc\<rparr>) d desc) \<and>
         (lru_Get (lru q') \<lparr>digest = d, repo = name\<rparr> = Some desc \<or>
          lru_Get (lru q') \<lparr>digest = d, repo = name\<rparr> = None) \<and>
         (\<forall>k. repo k = name \<or> repo k = [] \<or> lru_Get (lru q') k = lru_Get (lru q) k \<or>
              lru_Get (lru q') k = None) \<and>
         (has_room 3 (lru q) \<longrightarrow>
            lru_Get (lru q') \<lparr>digest = d, repo = name\<rparr> = Some desc \<and>
            (\<forall>k. repo k = name \<or> repo k = [] \<or> lru_Get (lru q') k = lru_Get (lru q) k))))"
proof (intro conjI impI allI)
  assume "P name = None"
  then show "RepositoryScoped P p name = Inl InvalidRepositoryName"
    by (simp add: RepositoryScoped_def)
next
  assume "RepositoryScoped P p name = Inr rs"
  then show rs: "scoped_repo rs = name"
    by (auto simp: RepositoryScoped_def split: option.splits)
  show "scoped_Stat V rs q d =
        (if V d then (case lru_Get (lru q) \<lparr>digest = d, repo = name\<rparr> of
                        Some x \<Rightarrow> Inr x | None \<Rightarrow> Inl ErrBlobUnknown)
         else Inl InvalidDigest)"
    by (simp add: scoped_Stat_lookup rs lru_Get_def)
  show "scoped_Clear rs q d = (None, q\<lparr>lru := lru_Remove (lru q) \<lparr>digest = d, repo = name\<rparr>\<rparr>)"
    by (simp add: scoped_Clear_def rs)
  fix q'
  assume w: "scoped_SetDescriptor V A E rs q d desc = (None, q')"
  show "q' = snd (SetDescriptor V A E
                     (q\<lparr>lru := lru_Add E (lru q) \<lparr>digest = d, repo = name\<rparr> desc\<rparr>) d desc)"
    using scoped_write_state [OF w] by (simp add: rs)
  show "lru_Get (lru q') \<lparr>digest = d, repo = name\<rparr> = Some desc \<or>
        lru_Get (lru q') \<lparr>digest = d, repo = name\<rparr> = None"
    using scoped_write_own [OF w] by (simp add: rs lru_Get_def)
  {
    fix k
    show "repo k = name \<or> repo k = [] \<or> lru_Get (lru q') k = lru_Get (lru q) k \<or>
          lru_Get (lru q') k = None"
      using scoped_write_other [OF w, of k] by (auto simp: rs lru_Get_def)
  }
  assume room: "has_room 3 (lru q)"
  show "lru_Get (lru q') \<lparr>digest = d, repo = name\<rparr> = Some desc"
    using scoped_write_own_room [OF w room] by (simp add: rs lru_Get_def)
  fix k
  show "repo k = name \<or> repo k = [] \<or> lru_Get (lru q') k = lru_Get (lru q) k"
    using scoped_write_other_room [OF w _ _ room, of k] by (auto simp: rs lru_Get_def)
qed

theorem scoped_view_keys_witness:
  "std_ParseNormalizedNamed ''Ubuntu'' = None \<and>
   RepositoryScoped std_ParseNormalizedNamed fresh ''Ubuntu'' = Inl InvalidRepositoryName \<and>
   RepositoryScoped std_ParseNormalizedNamed fresh ''library/ubuntu'' = Inr ubuntu \<and>
   scoped_repo ubuntu = ''library/ubuntu'' \<and>
   scoped_Stat std_Validate ubuntu ubuntu_wrote (sha256_of CHR ''a'') =
     (if std_Validate (sha256_of CHR ''a'')
      then (case lru_Get (lru ubuntu_wrote) \<lparr>digest = sha256_of CHR ''a'', repo = ''library/ubuntu''\<rparr> of
              Some x \<Rightarrow> Inr x | None \<Rightarrow> Inl ErrBlobUnknown)
      else Inl InvalidDigest) \<and>
   scoped_Clear ubuntu ubuntu_wrote (sha256_of CHR ''a'') =
     (None, ubuntu_wrote\<lparr>lru := lru_Remove (lru ubuntu_wrote)
                              \<lparr>digest = sha256_of CHR ''a'', repo = ''library/ubuntu''\<rparr>\<rparr>) \<and>
   scoped_SetDescriptor std_Validate std_Algorithm oldest ubuntu fresh (sha256_of CHR ''a'')
     (blob (sha256_of CHR ''a'') 1) = (None, ubuntu_wrote) \<and>
   has_room 3 (lru fresh) \<and>
   ubuntu_wrote = snd (SetDescriptor std_Validate std_Algorithm oldest
       (fresh\<lparr>lru := lru_Add oldest (lru fresh)
                 \<lparr>digest = sha256_of CHR ''a'', repo = ''library/ubuntu''\<rparr>
                 (blob (sha256_of CHR ''a'') 1)\<rparr>)
       (sha256_of CHR ''a'') (blob (sha256_of CHR ''a'') 1)) \<and>
   lru_Get (lru ubuntu_wrote) \<lparr>digest = sha256_of CHR ''a'', repo = ''library/ubuntu''\<rparr>
     = Some (blob (sha256_of CHR ''a'') 1) \<and>
   (\<forall>k. repo k = ''library/ubuntu'' \<or> repo k = [] \<or>
        lru_Get (lru ubuntu_wrote) k = lru_Get (lru fresh) k)"
proof -
  have h1: "std_ParseNormalizedNamed ''Ubuntu'' = None"
    by (simp add: std_ParseNormalizedNamed_def)
  have h2: "RepositoryScoped std_ParseNormalizedNamed fresh ''library/ubuntu'' = Inr ubuntu"
    by (simp add: RepositoryScoped_def std_ParseNormalizedNamed_def ubuntu_def)
  note w = ubuntu_wrote_reached [of oldest]
  from scoped_view_keys [where P = std_ParseNormalizedNamed and name = "''Ubuntu''" and p = fresh] h1
  have a: "RepositoryScoped std_ParseNormalizedNamed fresh ''Ubuntu'' = Inl InvalidRepositoryName"
    by blast
  from scoped_view_keys [where P = std_ParseNormalizedNamed and name = "''library/ubuntu''"
      and p = fresh and rs = ubuntu and V = std_Validate and A = std_Algorithm and E = oldest
      and q = ubuntu_wrote and d = "sha256_of CHR ''a''"] h2
  have b: "scoped_repo ubuntu = ''library/ubuntu'' \<and>
   scoped_Stat std_Validate ubuntu ubuntu_wrote (sha256_of CHR ''a'') =
     (if std_Validate (sha256_of CHR ''a'')
      then (case lru_Get (lru ubuntu_wrote) \<lparr>digest = sha256_of CHR ''a'', repo = ''library/ubuntu''\<rparr> of
              Some x \<Rightarrow> Inr x | None \<Rightarrow> Inl ErrBlobUnknown)
      else Inl InvalidDigest) \<and>
   scoped_Clear ubuntu ubuntu_wrote (sha256_of CHR ''a'') =
     (None, ubuntu_wrote\<lparr>lru := lru_Remove (lru ubuntu_wrote)
                              \<lparr>digest = sha256_of CHR ''a'', repo = ''library/ubuntu''\<rparr>\<rparr>)"
    by blast
  from scoped_view_keys [where P = std_ParseNormalizedNamed and name = "''library/ubuntu''"
      and p = fresh and rs = ubuntu and V = std_Validate and A = std_Algorithm and E = oldest
      and q = fresh and d = "sha256_of CHR ''a''" and desc = "blob (sha256_of CHR ''a'') 1"]
    h2 w fresh_room
  have c: "ubuntu_wrote = snd (SetDescriptor std_Validate std_Algorithm oldest
       (fresh\<lparr>lru := lru_Add oldest (lru fresh)
                 \<lparr>digest = sha256_of CHR ''a'', repo = ''library/ubuntu''\<rparr>
                 (blob (sha256_of CHR ''a'') 1)\<rparr>)
       (sha256_of CHR ''a'') (blob (sha256_of CHR ''a'') 1)) \<and>
   lru_Get (lru ubuntu_wrote) \<lparr>digest = sha256_of CHR ''a'', repo = ''library/ubuntu''\<rparr>
     = Some (blob (sha256_of CHR ''a'') 1) \<and>
   (\<forall>k. repo k = ''library/ubuntu'' \<or> repo k = [] \<or>
        lru_Get (lru ubuntu_wrote) k = lru_Get (lru fresh) k)"
    by blast
  from h1 h2 a b c w fresh_room show ?thesis by blast
qed

subsection \<open>Termination of the provider's write\<close>

text \<open>
  A call whose two digests agree in their algorithm, or are equal, makes no nested call and
  needs one activation. The call nested in \<open>SetDescriptor\<close> is of this kind: it is for
  the descriptor's own digest. An alias on the empty cache shows that one activation is
  not enough for every call.
\<close>

lemma SetDescriptor_fuel_no_alias:
  "A dgst = A (Digest desc) \<or> dgst = Digest desc \<Longrightarrow>
   SetDescriptor_fuel (Suc n) V A E p dgst desc = Some (SetDescriptor V A E p dgst desc)"
  by (auto simp: SetDescriptor.simps [of V A E p dgst desc] split: sum.splits option.splits)

lemma SetDescriptor_fuel_one_short:
  "SetDescriptor_fuel 1 std_Validate std_Algorithm oldest fresh (sha256_of CHR ''a'')
     (blob (sha512_of CHR ''c'') 3) = None"
  by (simp add: Stat_lookup)

text \<open>
  C9. \<open>SetDescriptor\<close> returns on every input, and its calls nest at most one deep: with
  two activations allowed, the outer call and one nested, the bounded method returns
  for every input, and it returns what the method returns.
\<close>

theorem SetDescriptor_terminates:
  "SetDescriptor_fuel (Suc (Suc n)) V A E p dgst desc = Some (SetDescriptor V A E p dgst desc)"
proof -
  have nested: "SetDescriptor_fuel (Suc n) V A E p (Digest desc) desc
     = Some (SetDescriptor V A E p (Digest desc) desc)"
    by (rule SetDescriptor_fuel_own)
  show ?thesis
    by (simp add: SetDescriptor_fuel.simps(2) [of "Suc n"] nested SetDescriptor.simps [of V A E p dgst desc]
        del: SetDescriptor_fuel.simps
        split: sum.splits option.splits prod.splits)
qed

theorem SetDescriptor_terminates_witness:
  "SetDescriptor_fuel 2 std_Validate std_Algorithm oldest fresh (sha256_of CHR ''a'')
     (blob (sha512_of CHR ''c'') 3) =
   Some (None, \<lparr>lru = \<lparr>capacity = DefaultSize, entries =
     [(\<lparr>digest = sha512_of CHR ''c'', repo = []\<rparr>, blob (sha512_of CHR ''c'') 3),
      (\<lparr>digest = sha256_of CHR ''a'', repo = []\<rparr>, blob (sha512_of CHR ''c'') 3)]\<rparr>\<rparr>)"
proof -
  have "SetDescriptor std_Validate std_Algorithm oldest fresh (sha256_of CHR ''a'')
     (blob (sha512_of CHR ''c'') 3) =
     (None, \<lparr>lru = \<lparr>capacity = DefaultSize, entries =
     [(\<lparr>digest = sha512_of CHR ''c'', repo = []\<rparr>, blob (sha512_of CHR ''c'') 3),
      (\<lparr>digest = sha256_of CHR ''a'', repo = []\<rparr>, blob (sha512_of CHR ''c'') 3)]\<rparr>\<rparr>)"
    by (simp add: SetDescriptor_closed lru_Add_def has_room_def items_def fresh_def
        DefaultSize_def)
  with SetDescriptor_terminates [of 0 std_Validate std_Algorithm oldest fresh "sha256_of CHR ''a''"
      "blob (sha512_of CHR ''c'') 3"]
  show ?thesis by (simp add: numeral_2_eq_2)
qed

subsection \<open>Writing through a view over a known digest\<close>

text \<open>
  On a full store the view's \<^verbatim>\<open>Add\<close> evicts an entry, and the entry may be the
  global one for the same digest. On a cache of capacity one that knows the digest, the
  write through a view evicts the global entry; the forwarded \<open>SetDescriptor\<close> then finds
  the digest unknown and stores the new descriptor: the call succeeds and the provider's
  \<open>Stat\<close> answers the new descriptor, not the one it held.
\<close>

theorem scoped_write_full_store_counterexample:
  "std_Validate (sha256_of CHR ''a'') \<and>
   ValidateDescriptor std_Validate (blob (sha256_of CHR ''a'') 2) = None \<and>
   SetDescriptor std_Validate std_Algorithm oldest tiny (sha256_of CHR ''a'')
     (blob (sha256_of CHR ''a'') 1) = (None, tiny_known_a) \<and>
   Stat std_Validate tiny_known_a (sha256_of CHR ''a'') = Inr (blob (sha256_of CHR ''a'') 1) \<and>
   fst (scoped_SetDescriptor std_Validate std_Algorithm oldest ubuntu tiny_known_a
          (sha256_of CHR ''a'') (blob (sha256_of CHR ''a'') 2)) = None \<and>
   Stat std_Validate
     (snd (scoped_SetDescriptor std_Validate std_Algorithm oldest ubuntu tiny_known_a
             (sha256_of CHR ''a'') (blob (sha256_of CHR ''a'') 2)))
     (sha256_of CHR ''a'') = Inr (blob (sha256_of CHR ''a'') 2) \<and>
   blob (sha256_of CHR ''a'') 2 \<noteq> blob (sha256_of CHR ''a'') 1"
  by (simp add: tiny_scoped_write_state tiny_known_a_reached tiny_known_a_stat)
     (simp add: Stat_lookup items_def)

text \<open>
  C10, as the code has it. For a valid digest and a well-formed descriptor,
  \<open>SetDescriptor\<close> on a view returns no error. When the provider already holds an entry
  \<open>g\<close> for the digest, the view's repository name is not empty, and the store has room
  for one more entry or already holds the view's key, the write changes the entry of the
  view's own key only, which then holds the new descriptor, whatever it held; the
  provider's \<open>Stat\<close> still answers \<open>g\<close>.
\<close>

theorem scoped_write_over_known_global:
  assumes "V d" and "ValidateDescriptor V desc = None"
  shows "fst (scoped_SetDescriptor V A E rs p d desc) = None \<and>
         (Stat V p d = Inr g \<and> scoped_repo rs \<noteq> [] \<and>
          (has_room 1 (lru p) \<or>
           (\<exists>old. lru_Get (lru p) \<lparr>digest = d, repo = scoped_repo rs\<rparr> = Some old)) \<longrightarrow>
            scoped_SetDescriptor V A E rs p d desc =
              (None, p\<lparr>lru := lru_Add E (lru p) \<lparr>digest = d, repo = scoped_repo rs\<rparr> desc\<rparr>) \<and>
            scoped_Stat V rs (snd (scoped_SetDescriptor V A E rs p d desc)) d = Inr desc \<and>
            Stat V (snd (scoped_SetDescriptor V A E rs p d desc)) d = Inr g)"
proof (intro conjI impI)
  let ?ks = "\<lparr>digest = d, repo = scoped_repo rs\<rparr>"
  let ?q = "p\<lparr>lru := lru_Add E (lru p) ?ks desc\<rparr>"
  have eq: "scoped_SetDescriptor V A E rs p d desc = SetDescriptor V A E ?q d desc"
    using assms by (rule scoped_SetDescriptor_valid)
  show "fst (scoped_SetDescriptor V A E rs p d desc) = None"
    unfolding eq using assms by (rule SetDescriptor_succeeds)
  assume a: "Stat V p d = Inr g \<and> scoped_repo rs \<noteq> [] \<and>
          (has_room 1 (lru p) \<or> (\<exists>old. lru_Get (lru p) ?ks = Some old))"
  then have g: "items (lru p) \<lparr>digest = d, repo = []\<rparr> = Some g"
    by (simp add: Stat_known_iff)
  from a have it: "items (lru ?q) = (items (lru p))(?ks \<mapsto> desc)"
    by (auto simp: lru_Add_room lru_Add_known lru_Get_def)
  from a have ne: "\<lparr>digest = d, repo = []\<rparr> \<noteq> ?ks" by auto
  from it g ne assms(1) have "Stat V ?q d = Inr g" by (simp add: Stat_known_iff)
  then have "SetDescriptor V A E ?q d desc = (None, ?q)" by (rule SetDescriptor_known)
  with eq show 1: "scoped_SetDescriptor V A E rs p d desc = (None, ?q)" by simp
  show "scoped_Stat V rs (snd (scoped_SetDescriptor V A E rs p d desc)) d = Inr desc"
    using assms(1) by (simp add: 1 scoped_Stat_lookup)
  show "Stat V (snd (scoped_SetDescriptor V A E rs p d desc)) d = Inr g"
    using it g ne assms(1) by (simp add: 1 Stat_known_iff)
qed

theorem scoped_write_over_known_global_witness:
  "std_Validate (sha256_of CHR ''a'') \<and>
   ValidateDescriptor std_Validate (blob (sha256_of CHR ''a'') 2) = None \<and>
   Stat std_Validate known_a (sha256_of CHR ''a'') = Inr (blob (sha256_of CHR ''a'') 1) \<and>
   scoped_repo ubuntu \<noteq> [] \<and>
   has_room 1 (lru known_a) \<and>
   fst (scoped_SetDescriptor std_Validate std_Algorithm oldest ubuntu known_a
          (sha256_of CHR ''a'') (blob (sha256_of CHR ''a'') 2)) = None \<and>
   scoped_SetDescriptor std_Validate std_Algorithm oldest ubuntu known_a (sha256_of CHR ''a'')
       (blob (sha256_of CHR ''a'') 2) =
     (None, known_a\<lparr>lru := lru_Add oldest (lru known_a)
        \<lparr>digest = sha256_of CHR ''a'', repo = scoped_repo ubuntu\<rparr> (blob (sha256_of CHR ''a'') 2)\<rparr>) \<and>
   scoped_Stat std_Validate ubuntu
     (snd (scoped_SetDescriptor std_Validate std_Algorithm oldest ubuntu known_a
             (sha256_of CHR ''a'') (blob (sha256_of CHR ''a'') 2)))
     (sha256_of CHR ''a'') = Inr (blob (sha256_of CHR ''a'') 2) \<and>
   Stat std_Validate
     (snd (scoped_SetDescriptor std_Validate std_Algorithm oldest ubuntu known_a
             (sha256_of CHR ''a'') (blob (sha256_of CHR ''a'') 2)))
     (sha256_of CHR ''a'') = Inr (blob (sha256_of CHR ''a'') 1)"
proof -
  have h1: "std_Validate (sha256_of CHR ''a'')" by simp
  have h2: "ValidateDescriptor std_Validate (blob (sha256_of CHR ''a'') 2) = None" by simp
  have h3: "scoped_repo ubuntu \<noteq> []" by simp
  have h4: "has_room 1 (lru known_a)" using known_a_room by (simp add: has_room_def)
  from scoped_write_over_known_global [OF h1 h2, where A = std_Algorithm and E = oldest
      and rs = ubuntu and p = known_a and g = "blob (sha256_of CHR ''a'') 1"]
    known_a_stat h1 h2 h3 h4
  show ?thesis by blast
qed

end
